theory Spec2Isabelle
  imports Complex_Main
begin

section \<open>Strings as the program sees them\<close>

text \<open>
  The program is TypeScript; its strings are sequences of UTF-16 code units. The model
  uses \<^typ>\<open>string\<close>, so it covers the code units below 256 (ASCII and Latin-1). The
  classes \<open>\d\<close> and \<open>\w\<close> and every literal of the program's regular expressions
  live there; of \<open>\s\<close> the model has the seven characters below 256. A character is
  classified through its code \<open>of_char c\<close>. Case conversion is the one of JavaScript
  on these characters, where it stays below 256 and maps one character to one.
\<close>

definition code :: "char \<Rightarrow> nat" where
  "code c = of_char c"

definition is_digit :: "char \<Rightarrow> bool" where
  \<comment> \<open>\<open>\d\<close>\<close>
  "is_digit c = (48 \<le> code c \<and> code c \<le> 57)"

definition is_upper :: "char \<Rightarrow> bool" where
  "is_upper c = (65 \<le> code c \<and> code c \<le> 90)"

definition is_lower :: "char \<Rightarrow> bool" where
  "is_lower c = (97 \<le> code c \<and> code c \<le> 122)"

definition is_alnum :: "char \<Rightarrow> bool" where
  \<comment> \<open>\<open>[a-zA-Z0-9]\<close>\<close>
  "is_alnum c = (is_lower c \<or> is_upper c \<or> is_digit c)"

definition is_lower_alnum :: "char \<Rightarrow> bool" where
  \<comment> \<open>\<open>[a-z0-9]\<close>\<close>
  "is_lower_alnum c = (is_lower c \<or> is_digit c)"

definition is_word :: "char \<Rightarrow> bool" where
  \<comment> \<open>\<open>\w\<close>\<close>
  "is_word c = (is_alnum c \<or> c = CHR ''_'')"

definition is_space :: "char \<Rightarrow> bool" where
  \<comment> \<open>\<open>\s\<close>: tab, line feed, vertical tab, form feed, carriage return, space, no-break space\<close>
  "is_space c = ((9 \<le> code c \<and> code c \<le> 13) \<or> code c = 32 \<or> code c = 160)"

definition is_dot :: "char \<Rightarrow> bool" where
  \<comment> \<open>\<open>.\<close>: anything but a line terminator\<close>
  "is_dot c = (code c \<noteq> 10 \<and> code c \<noteq> 13)"

definition lower_char :: "char \<Rightarrow> char" where
  "lower_char c =
     (if is_upper c \<or> (192 \<le> code c \<and> code c \<le> 222 \<and> code c \<noteq> 215)
      then char_of (code c + 32) else c)"

definition upper_char :: "char \<Rightarrow> char" where
  "upper_char c =
     (if is_lower c \<or> (224 \<le> code c \<and> code c \<le> 254 \<and> code c \<noteq> 247)
      then char_of (code c - 32) else c)"

definition toLowerCase :: "string \<Rightarrow> string" where
  "toLowerCase s = map lower_char s"

definition toUpperCase :: "string \<Rightarrow> string" where
  "toUpperCase s = map upper_char s"

definition trim :: "string \<Rightarrow> string" where
  "trim s = rev (dropWhile is_space (rev (dropWhile is_space s)))"

definition str_includes :: "string \<Rightarrow> string \<Rightarrow> bool" where
  \<comment> \<open>\<open>s.includes(t)\<close>\<close>
  "str_includes s t = (\<exists>k \<in> set [0..<Suc (length s)]. take (length t) (drop k s) = t)"

text \<open>\<open>parseInt(ds, 10)\<close> on a run of decimal digits, and \<open>n.toString()\<close> on a natural number.\<close>

definition digit_val :: "char \<Rightarrow> nat" where
  "digit_val c = code c - 48"

definition parseInt :: "string \<Rightarrow> nat" where
  "parseInt ds = foldl (\<lambda>n c. 10 * n + digit_val c) 0 ds"

definition digit_char :: "nat \<Rightarrow> char" where
  "digit_char d = char_of (48 + d)"

fun toString_fuel :: "nat \<Rightarrow> nat \<Rightarrow> string" where
  "toString_fuel 0 n = [digit_char (n mod 10)]"
| "toString_fuel (Suc k) n =
     (if n < 10 then [digit_char n] else toString_fuel k (n div 10) @ [digit_char (n mod 10)])"

definition toString :: "nat \<Rightarrow> string" where
  "toString n = toString_fuel n n"

definition padStart :: "nat \<Rightarrow> char \<Rightarrow> string \<Rightarrow> string" where
  "padStart w c s = replicate (w - length s) c @ s"

section \<open>Regular expressions\<close>

text \<open>
  The regular expressions of the program, with the backtracking semantics of the
  JavaScript engine: a match is searched at the leftmost position, and at one position
  the alternatives are tried in priority order (a greedy star takes one more iteration
  before it tries to stop, a lazy star the other way round).
\<close>

datatype rx =
    Chr "char \<Rightarrow> bool"
  | Eps
  | Seq rx rx
  | Alt rx rx
  | Star rx
  | Lazy rx
  | Grp nat rx
  | WordB
  | Bos
  | Eos
  | NotAhead rx

text \<open>
  A matcher state: the character before the current position (none at the start of the
  input), the rest of the input, and the capture groups closed so far.
\<close>

type_synonym mstate = "char option \<times> string \<times> (nat \<times> string) list"

definition rest_len :: "mstate \<Rightarrow> nat" where
  "rest_len st = length (fst (snd st))"

definition word_before :: "char option \<Rightarrow> bool" where
  "word_before pc = (case pc of None \<Rightarrow> False | Some c \<Rightarrow> is_word c)"

definition word_after :: "string \<Rightarrow> bool" where
  "word_after s = (case s of [] \<Rightarrow> False | c # _ \<Rightarrow> is_word c)"

text \<open>
  \<open>ms r st\<close> lists, in priority order, the states in which a match of \<open>r\<close> started in
  \<open>st\<close> can end. An iteration of a star that consumes nothing is dropped, as the
  JavaScript engine does.
\<close>

function ms :: "rx \<Rightarrow> mstate \<Rightarrow> mstate list" where
  "ms (Chr p) st =
     (case fst (snd st) of
        [] \<Rightarrow> []
      | c # t \<Rightarrow> if p c then [(Some c, t, snd (snd st))] else [])"
| "ms Eps st = [st]"
| "ms (Seq a b) st = concat (map (ms b) (ms a st))"
| "ms (Alt a b) st = ms a st @ ms b st"
| "ms (Star r) st =
     concat (map (ms (Star r)) (filter (\<lambda>st'. rest_len st' < rest_len st) (ms r st))) @ [st]"
| "ms (Lazy r) st =
     st # concat (map (ms (Lazy r)) (filter (\<lambda>st'. rest_len st' < rest_len st) (ms r st)))"
| "ms (Grp n r) st =
     map (\<lambda>st'. (fst st', fst (snd st'),
                  (n, take (rest_len st - rest_len st') (fst (snd st))) # snd (snd st')))
         (ms r st)"
| "ms WordB st = (if word_before (fst st) \<noteq> word_after (fst (snd st)) then [st] else [])"
| "ms Bos st = (if fst st = None then [st] else [])"
| "ms Eos st = (if fst (snd st) = [] then [st] else [])"
| "ms (NotAhead r) st = (if ms r st = [] then [st] else [])"
  by pat_completeness auto
termination
  by (relation "measures [\<lambda>(r, st). size r, \<lambda>(r, st). rest_len st]") auto

text \<open>Derived forms: \<open>r+\<close>, \<open>r?\<close>, a literal, a literal under the \<open>i\<close> flag, a sequence.\<close>

definition Plus :: "rx \<Rightarrow> rx" where
  "Plus r = Seq r (Star r)"

definition Opt :: "rx \<Rightarrow> rx" where
  "Opt r = Alt r Eps"

definition Ch :: "char \<Rightarrow> rx" where
  "Ch c = Chr (\<lambda>x. x = c)"

definition ChI :: "char \<Rightarrow> rx" where
  \<comment> \<open>under the \<open>i\<close> flag two characters match when their upper-case forms agree\<close>
  "ChI c = Chr (\<lambda>x. upper_char x = upper_char c)"

text \<open>Bounded repetition: \<open>r{n}\<close>, the greedy \<open>r{0,n}\<close>, \<open>r{lo,hi}\<close> and \<open>r{lo,}\<close>.\<close>

fun RepN :: "rx \<Rightarrow> nat \<Rightarrow> rx" where
  "RepN r 0 = Eps"
| "RepN r (Suc n) = Seq r (RepN r n)"

fun RepUpTo :: "rx \<Rightarrow> nat \<Rightarrow> rx" where
  "RepUpTo r 0 = Eps"
| "RepUpTo r (Suc n) = Alt (Seq r (RepUpTo r n)) Eps"

definition Rep :: "rx \<Rightarrow> nat \<Rightarrow> nat \<Rightarrow> rx" where
  "Rep r lo hi = Seq (RepN r lo) (RepUpTo r (hi - lo))"

definition RepMin :: "rx \<Rightarrow> nat \<Rightarrow> rx" where
  "RepMin r lo = Seq (RepN r lo) (Star r)"

fun Seqs :: "rx list \<Rightarrow> rx" where
  "Seqs [] = Eps"
| "Seqs [r] = r"
| "Seqs (r # rs) = Seq r (Seqs rs)"

definition Lit :: "string \<Rightarrow> rx" where
  "Lit s = Seqs (map Ch s)"

definition LitI :: "string \<Rightarrow> rx" where
  "LitI s = Seqs (map ChI s)"

text \<open>
  \<open>rx_at\<close> is the first match at one position, \<open>rx_find\<close> the leftmost match
  (what \<open>s.match(r)\<close> and \<open>r.test(s)\<close> look for): the text before the match, the end
  state of the match.
\<close>

definition rx_at :: "rx \<Rightarrow> char option \<Rightarrow> string \<Rightarrow> mstate option" where
  "rx_at r pc s = (case ms r (pc, s, []) of [] \<Rightarrow> None | st # _ \<Rightarrow> Some st)"

fun rx_find :: "rx \<Rightarrow> char option \<Rightarrow> string \<Rightarrow> (string \<times> mstate) option" where
  "rx_find r pc [] = (case rx_at r pc [] of None \<Rightarrow> None | Some st \<Rightarrow> Some ([], st))"
| "rx_find r pc (c # t) =
     (case rx_at r pc (c # t) of
        Some st \<Rightarrow> Some ([], st)
      | None \<Rightarrow> (case rx_find r (Some c) t of
                  None \<Rightarrow> None
                | Some (pre, st) \<Rightarrow> Some (c # pre, st)))"

definition rx_test :: "rx \<Rightarrow> string \<Rightarrow> bool" where
  "rx_test r s = (rx_find r None s \<noteq> None)"

text \<open>\<open>s.match(r)\<close> without the \<open>g\<close> flag: the capture groups of the leftmost match.\<close>

definition rx_match :: "rx \<Rightarrow> string \<Rightarrow> (nat \<rightharpoonup> string) option" where
  "rx_match r s = map_option (\<lambda>(pre, st). map_of (snd (snd st))) (rx_find r None s)"

text \<open>
  \<open>s.replace(r, repl)\<close> with the \<open>g\<close> flag, and \<open>s.match(r)\<close> with the \<open>g\<close> flag:
  the search resumes where the last match ended, one character further after an empty
  match.
\<close>

function rx_gsub :: "rx \<Rightarrow> string \<Rightarrow> char option \<Rightarrow> string \<Rightarrow> string" where
  "rx_gsub r repl pc s =
     (case rx_at r pc s of
        None \<Rightarrow> (case s of [] \<Rightarrow> [] | c # t \<Rightarrow> c # rx_gsub r repl (Some c) t)
      | Some st \<Rightarrow>
          if rest_len st < length s then repl @ rx_gsub r repl (fst st) (fst (snd st))
          else (case s of [] \<Rightarrow> repl | c # t \<Rightarrow> repl @ c # rx_gsub r repl (Some c) t))"
  by pat_completeness auto
termination
  by (relation "measure (\<lambda>(r, repl, pc, s). length s)") (auto simp: rest_len_def)

function rx_match_all :: "rx \<Rightarrow> char option \<Rightarrow> string \<Rightarrow> string list" where
  "rx_match_all r pc s =
     (case rx_at r pc s of
        None \<Rightarrow> (case s of [] \<Rightarrow> [] | c # t \<Rightarrow> rx_match_all r (Some c) t)
      | Some st \<Rightarrow>
          if rest_len st < length s
          then take (length s - rest_len st) s # rx_match_all r (fst st) (fst (snd st))
          else (case s of [] \<Rightarrow> [[]] | c # t \<Rightarrow> [] # rx_match_all r (Some c) t))"
  by pat_completeness auto
termination
  by (relation "measure (\<lambda>(r, pc, s). length s)") (auto simp: rest_len_def)

definition replace_all :: "rx \<Rightarrow> string \<Rightarrow> string \<Rightarrow> string" where
  "replace_all r repl s = rx_gsub r repl None s"

definition replace_first :: "rx \<Rightarrow> string \<Rightarrow> string \<Rightarrow> string" where
  "replace_first r repl s =
     (case rx_find r None s of
        None \<Rightarrow> s
      | Some (pre, st) \<Rightarrow> pre @ repl @ fst (snd st))"

section \<open>Paths (POSIX \<open>path.basename\<close>, \<open>path.extname\<close>)\<close>

definition path_component :: "string \<Rightarrow> string" where
  \<comment> \<open>the last component of a path, trailing separators ignored\<close>
  "path_component p =
     rev (takeWhile (\<lambda>c. c \<noteq> CHR ''/'') (dropWhile (\<lambda>c. c = CHR ''/'') (rev p)))"

definition extname :: "string \<Rightarrow> string" where
  \<comment> \<open>from the last dot of the last component; empty when there is no dot, when the
      component starts with its only dot, and for \<open>..\<close>\<close>
  "extname p =
     (let comp = path_component p;
          after = rev (takeWhile (\<lambda>c. c \<noteq> CHR ''.'') (rev comp))
      in if CHR ''.'' \<notin> set comp \<or> length after + 1 = length comp \<or> comp = ''..''
         then [] else CHR ''.'' # after)"

definition basename :: "string \<Rightarrow> string \<Rightarrow> string" where
  \<comment> \<open>\<open>basename(p, ext)\<close>: the last component, without \<open>ext\<close> when it ends with it\<close>
  "basename p ext =
     (let comp = path_component p
      in if ext \<noteq> [] \<and> length ext < length comp
            \<and> drop (length comp - length ext) comp = ext
         then take (length comp - length ext) comp else comp)"

definition getBaseName :: "string \<Rightarrow> string" where
  "getBaseName filename = basename filename (extname filename)"

section \<open>Identifier generator (\<open>generateSeriesId\<close>)\<close>

definition not_alnum_space :: "char \<Rightarrow> bool" where
  \<comment> \<open>\<open>[^a-zA-Z0-9\s]\<close>\<close>
  "not_alnum_space c = (\<not> (is_alnum c \<or> is_space c))"

definition not_alnum :: "char \<Rightarrow> bool" where
  \<comment> \<open>\<open>[^a-zA-Z0-9]\<close>\<close>
  "not_alnum c = (\<not> is_alnum c)"

definition baseId :: "string \<Rightarrow> string \<Rightarrow> string" where
  "baseId seriesName folderName =
     (if seriesName \<noteq> [] \<and> length seriesName \<ge> 2
      then take 50 (toLowerCase (replace_all (Plus (Chr is_space)) ''_''
                                   (replace_all (Chr not_alnum_space) [] seriesName)))
      else toLowerCase (replace_all (Chr not_alnum) ''_'' folderName))"

definition generateSeriesId :: "string \<Rightarrow> string \<Rightarrow> nat option \<Rightarrow> nat option \<Rightarrow> string" where
  "generateSeriesId seriesName folderName seasonNumber partNumber =
     (case partNumber of
        Some p \<Rightarrow> baseId seriesName folderName @ ''_part'' @ padStart 2 CHR ''0'' (toString p)
      | None \<Rightarrow>
         (case seasonNumber of
            Some s \<Rightarrow> baseId seriesName folderName @ ''_s'' @ padStart 2 CHR ''0'' (toString s)
          | None \<Rightarrow> baseId seriesName folderName))"

text \<open>\<open>t\<close> occurs in \<open>s\<close>: what \<open>s.includes(t)\<close> decides.\<close>

definition substring_of :: "string \<Rightarrow> string \<Rightarrow> bool" where
  "substring_of t s = (\<exists>before after. s = before @ t @ after)"

section \<open>Filename tokenizer (\<open>extractSeasonAndEpisode\<close>, \<open>extractSeasonNumber\<close>, \<open>extractPartNumber\<close>)\<close>

text \<open>
  Episode numbers are JavaScript numbers; the tokenizer produces non-negative integers
  and, for the decimal pattern, \<open>whole + decimal / 10\<close>. The model uses rationals, so
  the rounding of floating point (and of \<open>parseInt\<close> beyond $2^{53}$) is left out.
\<close>

definition digit :: rx where
  "digit = Chr is_digit"

definition space :: rx where
  "space = Chr is_space"

definition seasonEpisodeRx :: rx where
  \<comment> \<open>\<open>/\bS(\d+)E(\d+)\b/i\<close>\<close>
  "seasonEpisodeRx =
     Seqs [WordB, ChI CHR ''S'', Grp 1 (Plus digit), ChI CHR ''E'', Grp 2 (Plus digit), WordB]"

definition decimalEpisodeRx :: rx where
  \<comment> \<open>\<open>/Episode\s*(\d+)\.(\d+)/i\<close>\<close>
  "decimalEpisodeRx =
     Seqs [LitI ''Episode'', Star space, Grp 1 (Plus digit), Ch CHR ''.'', Grp 2 (Plus digit)]"

definition episodePatterns :: "rx list" where
  "episodePatterns =
     [ Seqs [LitI ''Episode'', Star space, Grp 1 (Plus digit)],
       Seqs [LitI ''Ep'', Opt (Ch CHR ''.''), Star space, Grp 1 (Plus digit)],
       Seqs [ChI CHR ''E'', Grp 1 (RepMin digit 2)],
       Seqs [space, Ch CHR ''-'', Star space, Grp 1 (Plus digit), Alt space Eos],
       Seqs [Ch CHR ''['', Grp 1 (Plus digit), Ch CHR '']''],
       Seqs [space, Grp 1 (Rep digit 1 3), Alt space Eos] ]"

text \<open>The loop \<open>for (const pattern of patterns)\<close>: the groups of the first pattern that matches.\<close>

fun first_match :: "rx list \<Rightarrow> string \<Rightarrow> (nat \<rightharpoonup> string) option" where
  "first_match [] s = None"
| "first_match (p # ps) s =
     (case rx_match p s of Some g \<Rightarrow> Some g | None \<Rightarrow> first_match ps s)"

definition group :: "(nat \<rightharpoonup> string) \<Rightarrow> nat \<Rightarrow> string" where
  "group g n = (case g n of Some s \<Rightarrow> s | None \<Rightarrow> [])"

definition year_like :: "string \<Rightarrow> bool" where
  "year_like n = (\<not> (parseInt n < 1900 \<or> parseInt n > 2099))"

definition extractSeasonAndEpisode :: "string \<Rightarrow> nat option \<times> rat" where
  "extractSeasonAndEpisode filename =
     (let baseName = getBaseName filename in
      case rx_match seasonEpisodeRx baseName of
        Some g \<Rightarrow> (Some (parseInt (group g 1)), of_nat (parseInt (group g 2)))
      | None \<Rightarrow>
     (case rx_match decimalEpisodeRx baseName of
        Some g \<Rightarrow> (None, of_nat (parseInt (group g 1)) + of_nat (parseInt (group g 2)) / 10)
      | None \<Rightarrow>
     (case first_match episodePatterns baseName of
        Some g \<Rightarrow> (None, of_nat (parseInt (group g 1)))
      | None \<Rightarrow>
     (let numbers = rx_match_all (Plus digit) None baseName;
          nonYearNumbers = filter (\<lambda>n. \<not> year_like n) numbers
      in if nonYearNumbers \<noteq> [] then (None, of_nat (parseInt (last nonYearNumbers)))
         else (None, 1)))))"

definition seasonPatterns :: "rx list" where
  "seasonPatterns =
     [ Seqs [LitI ''Season'', Star space, Grp 1 (Plus digit)],
       Seqs [WordB, ChI CHR ''S'', Grp 1 (Plus digit), WordB],
       Seqs [LitI ''Season'', Star space, Grp 1 (Plus digit)] ]"

definition extractSeasonNumber :: "string \<Rightarrow> nat option" where
  "extractSeasonNumber folderName =
     map_option (\<lambda>g. parseInt (group g 1)) (first_match seasonPatterns folderName)"

definition partPatterns :: "rx list" where
  "partPatterns =
     [ Seqs [LitI ''Part'', Star space, Grp 1 (Plus digit)],
       Seqs [WordB, ChI CHR ''P'', Grp 1 (Plus digit), WordB] ]"

definition extractPartNumber :: "string \<Rightarrow> nat option" where
  "extractPartNumber folderName =
     map_option (\<lambda>g. parseInt (group g 1)) (first_match partPatterns folderName)"

text \<open>
  Notions used to state what the tokenizer does. \<open>no_match_before r pc s n\<close>: the
  regular expression \<open>r\<close> matches at none of the first \<open>n\<close> positions of \<open>s\<close> (so a
  match at position \<open>n\<close> is the leftmost one). \<open>after_run p pc s\<close>: the character before
  the position reached by skipping the longest prefix of \<open>s\<close> whose characters satisfy
  \<open>p\<close>. \<open>digit_runs s\<close>: the maximal runs of digits of \<open>s\<close>, from left to right.
  \<open>spec_seasonEpisodeRx\<close>: the pattern \<open>S(\d+)E(\d+)\<close> as the specification writes it,
  without the word boundaries of the source.
\<close>

fun no_match_before :: "rx \<Rightarrow> char option \<Rightarrow> string \<Rightarrow> nat \<Rightarrow> bool" where
  "no_match_before r pc s 0 = True"
| "no_match_before r pc [] (Suc n) = (rx_at r pc [] = None)"
| "no_match_before r pc (c # t) (Suc n) =
     (rx_at r pc (c # t) = None \<and> no_match_before r (Some c) t n)"

definition last_or :: "char option \<Rightarrow> string \<Rightarrow> char option" where
  \<comment> \<open>the character before the position reached after \<open>pre\<close>\<close>
  "last_or pc pre = (if pre = [] then pc else Some (last pre))"

definition after_run :: "(char \<Rightarrow> bool) \<Rightarrow> char option \<Rightarrow> string \<Rightarrow> char option" where
  "after_run p pc s = (if takeWhile p s = [] then pc else Some (last (takeWhile p s)))"

function digit_runs :: "string \<Rightarrow> string list" where
  "digit_runs [] = []"
| "digit_runs (c # t) =
     (if is_digit c then takeWhile is_digit (c # t) # digit_runs (dropWhile is_digit t)
      else digit_runs t)"
  by pat_completeness auto
termination
  by (relation "measure length") (auto simp: length_dropWhile_le less_Suc_eq_le)

definition spec_seasonEpisodeRx :: rx where
  "spec_seasonEpisodeRx =
     Seqs [ChI CHR ''S'', Grp 1 (Plus digit), ChI CHR ''E'', Grp 2 (Plus digit)]"

section \<open>Series-name extractor (\<open>extractSeriesNameFromFilenames\<close>, \<open>cleanMovieTitle\<close>)\<close>

record VideoFile =
  filename :: string
  filePath :: string
  title :: string
  episodeNumber :: rat
  seasonNumber :: "nat option"
  subtitlePath :: "string option"
  subtitlePaths :: "string list"
  parentFolder :: string

definition dot :: rx where
  "dot = Chr is_dot"

definition decimals :: rx where
  \<comment> \<open>\<open>(\.\d+)?\<close>\<close>
  "decimals = Opt (Grp 1 (Seq (Ch CHR ''.'') (Plus digit)))"

definition ab :: rx where
  \<comment> \<open>\<open>[ab]?\<close>\<close>
  "ab = Opt (Chr (\<lambda>c. c = CHR ''a'' \<or> c = CHR ''b''))"

definition abI :: rx where
  \<comment> \<open>\<open>[ab]?\<close> under the \<open>i\<close> flag\<close>
  "abI = Opt (Chr (\<lambda>c. upper_char c = CHR ''A'' \<or> upper_char c = CHR ''B''))"

definition space_or_end :: rx where
  \<comment> \<open>\<open>(?:\s|$)\<close>\<close>
  "space_or_end = Alt space Eos"

definition to_end :: rx where
  \<comment> \<open>\<open>.*$\<close>\<close>
  "to_end = Seq (Star dot) Eos"

definition cleanName :: "string \<Rightarrow> string" where
  "cleanName baseName =
     trim
       (replace_all (Plus space) '' ''
       (replace_all (Ch CHR ''_'') '' ''
       (replace_all (Ch CHR ''.'') '' ''
       (replace_all (Seqs [Star space, Ch CHR ''('', Star (Chr (\<lambda>c. c \<noteq> CHR '')'')),
                           Ch CHR '')'', Star space]) '' ''
       (replace_first (Seqs [Star space, Ch CHR ''('', RepN digit 4, Ch CHR '')'',
                             Star space, Eos]) []
       (replace_all (Seqs [Star space, Ch CHR ''['',
                           Alt (LitI ''HD'') (Alt (LitI ''SD'') (Alt (LitI ''FHD'') (LitI ''UHD''))),
                           Opt (Ch CHR '']''), Star space]) '' ''
       (replace_all (Seqs [Star space, Ch CHR ''['',
                           Alt (Lit ''1080'') (Alt (Lit ''720'') (Alt (Lit ''480'') (Lit ''360''))),
                           Opt (ChI CHR ''p''), Ch CHR '']'', Star space]) '' ''
       (replace_all (Seqs [Plus space, Rep digit 1 3, NotAhead digit, space_or_end]) []
       (replace_first (Seqs [Star space, Ch CHR ''-'', Star space, Rep digit 1 4,
                             Opt (Seq (Ch CHR ''.'') (Plus digit)), ab, space_or_end, to_end]) []
       (replace_first (Seqs [Star space, Ch CHR ''['', Plus digit, decimals, ab,
                             Ch CHR '']'', to_end]) []
       (replace_first (Seqs [Star space, LitI ''Ep'', Opt (Ch CHR ''.''), Star space, Plus digit,
                             decimals, abI, Star space, to_end]) []
       (replace_first (Seqs [Star space, LitI ''Episode'', Star space, Plus digit,
                             decimals, abI, Star space, to_end]) []
       (replace_first (Seqs [Star space, WordB, LitI ''Season'', Star space, Plus digit,
                             WordB, to_end]) []
       (replace_first (Seqs [Star space, WordB, LitI ''Part'', Star space, Plus digit,
                             WordB, to_end]) []
       (replace_first (Seqs [Star space, WordB, ChI CHR ''E'', Plus digit, decimals,
                             WordB, to_end]) []
       (replace_first (Seqs [Star space, WordB, ChI CHR ''S'', Plus digit, ChI CHR ''E'',
                             Plus digit, decimals, WordB, to_end]) []
          baseName))))))))))))))))"

text \<open>The loop that grows \<open>commonPrefix\<close> over the characters of the shortest name.\<close>

fun commonPrefix :: "string \<Rightarrow> string list \<Rightarrow> string" where
  "commonPrefix [] names = []"
| "commonPrefix (c # t) names =
     (if list_all (\<lambda>n. case n of [] \<Rightarrow> False | x # _ \<Rightarrow> x = c) names
      then c # commonPrefix t (map tl names) else [])"

text \<open>\<open>s.split(/\s+/).filter(w => w.length > 0)\<close>: the runs of non-space characters.\<close>

fun words_acc :: "string \<Rightarrow> string \<Rightarrow> string list" where
  "words_acc w [] = (if w = [] then [] else [rev w])"
| "words_acc w (c # t) =
     (if is_space c then (if w = [] then words_acc [] t else rev w # words_acc [] t)
      else words_acc (c # w) t)"

definition split_words :: "string \<Rightarrow> string list" where
  "split_words s = words_acc [] s"

text \<open>The loop that grows \<open>commonWords\<close> over the words of the shortest name.\<close>

fun commonWords :: "string list \<Rightarrow> string list list \<Rightarrow> string list" where
  "commonWords [] wss = []"
| "commonWords (w # ws) wss =
     (if list_all (\<lambda>names. case names of [] \<Rightarrow> False | x # _ \<Rightarrow> x = w) wss
      then w # commonWords ws (map tl wss) else [])"

fun join_words :: "string list \<Rightarrow> string" where
  "join_words [] = []"
| "join_words [w] = w"
| "join_words (w # ws) = w @ '' '' @ join_words ws"

definition extractSeriesNameFromFilenames :: "VideoFile list \<Rightarrow> string" where
  "extractSeriesNameFromFilenames videoFiles =
     (if videoFiles = [] then []
      else
        let cleanedNames = map (\<lambda>video. cleanName (getBaseName (filename video))) videoFiles
        in if length cleanedNames = 1 then hd cleanedNames
        else
          let sorted = sort_key length cleanedNames;
              shortest = hd sorted;
              prefix = commonPrefix shortest sorted;
              result1 = trim (replace_first
                          (Seq (Plus (Chr (\<lambda>c. c = CHR ''-'' \<or> c = CHR ''_'' \<or> is_space c))) Eos)
                          [] prefix);
              result2 = (if length result1 < 3
                         then trim (join_words
                                (commonWords (split_words shortest) (map split_words sorted)))
                         else result1);
              result3 = (if result2 = [] \<or> length result2 < 2 then shortest else result2)
          in trim (replace_first (Seqs [Plus space, Plus digit, Star space, Eos]) []
                  (replace_first (Seqs [Star space, Ch CHR ''-'', Star space, Eos]) [] result3)))"

definition cleanMovieTitle :: "string \<Rightarrow> string" where
  "cleanMovieTitle fname =
     trim
       (replace_all (Plus space) '' ''
       (replace_all (Ch CHR ''_'') '' ''
       (replace_all (Ch CHR ''.'') '' ''
       (replace_all (Seqs [Ch CHR ''.'', RepN digit 4, Ch CHR ''.'']) '' ''
       (replace_all (Seqs [Star space, Ch CHR ''['', Lazy dot, Ch CHR '']'', Star space]) []
       (replace_all (Seqs [Star space, Ch CHR ''('', Lazy dot, Ch CHR '')'', Star space]) []
          (getBaseName fname)))))))"

section \<open>Directory classifier (\<open>scanFolderForVideos\<close>, \<open>scanDirectory\<close>, \<open>scanMultipleFolders\<close>)\<close>

text \<open>
  The file system is a parameter: \<open>readdir\<close> and \<open>stat\<close> either fail with an error or
  return the entry names of a directory, respectively the kind of a path. A rejected
  promise is the left injection of a sum; a \<open>try\<close>/\<open>catch\<close> is a case distinction on it.
  The model keeps what \<open>console.warn\<close> and \<open>console.error\<close> print as a list of log
  events, each with its message (the error value printed after the message and the
  informational \<open>console.log\<close> lines are left out).
\<close>

datatype error = FsError string | ArgumentError string

datatype kind = File | Directory | Other

record filesystem =
  readdir :: "string \<Rightarrow> error + string list"
  stat :: "string \<Rightarrow> error + kind"

datatype log_event = Warn string | Err string

datatype media_type = Series | Movie

record ScannedMedia =
  media_id :: string
  media_name :: string
  media_type :: media_type
  media_folderPath :: string
  files :: "VideoFile list"
  media_seasonNumber :: "nat option"
  media_partNumber :: "nat option"

definition VIDEO_EXTENSIONS :: "string list" where
  "VIDEO_EXTENSIONS =
     [''.mp4'', ''.mkv'', ''.avi'', ''.mov'', ''.wmv'', ''.flv'', ''.webm'', ''.m4v'']"

definition SUBTITLE_EXTENSIONS :: "string list" where
  "SUBTITLE_EXTENSIONS = [''.srt'', ''.vtt'', ''.ass'', ''.ssa'']"

definition isVideoFile :: "string \<Rightarrow> bool" where
  "isVideoFile fname = (toLowerCase (extname fname) \<in> set VIDEO_EXTENSIONS)"

definition isSubtitleFile :: "string \<Rightarrow> bool" where
  "isSubtitleFile fname = (toLowerCase (extname fname) \<in> set SUBTITLE_EXTENSIONS)"

definition join :: "string \<Rightarrow> string \<Rightarrow> string" where
  \<comment> \<open>\<open>path.join\<close> of a folder path in normal form and an entry name as \<open>readdir\<close> gives it\<close>
  "join folder entry = folder @ ''/'' @ entry"

text \<open>
  The state of the loop over the entries of a folder: the log, the videos pushed so far
  and the subtitle paths grouped by base name.
\<close>

type_synonym folder_state = "log_event list \<times> VideoFile list \<times> (string \<Rightarrow> string list)"

definition scanFolderEntry ::
  "filesystem \<Rightarrow> string \<Rightarrow> string \<Rightarrow> nat option \<Rightarrow> folder_state \<Rightarrow> string \<Rightarrow> folder_state" where
  "scanFolderEntry fs folderPath folderName seasonFromFolder state entry =
     (case state of (lg, videos, subtitles) \<Rightarrow>
      let fullPath = join folderPath entry in
      case stat fs fullPath of
        Inl err \<Rightarrow> (lg @ [Warn (''Could not stat: '' @ fullPath)], videos, subtitles)
      | Inr stats \<Rightarrow>
          if stats = File then
            if isVideoFile entry then
              let (season, episode) = extractSeasonAndEpisode entry;
                  finalSeason = (case season of Some s \<Rightarrow> Some s | None \<Rightarrow> seasonFromFolder)
              in (lg,
                  videos @ [\<lparr> filename = entry, filePath = fullPath, title = getBaseName entry,
                              episodeNumber = episode, seasonNumber = finalSeason,
                              subtitlePath = None, subtitlePaths = [],
                              parentFolder = folderName \<rparr>],
                  subtitles)
            else if isSubtitleFile entry then
              (lg, videos,
               subtitles (getBaseName entry := subtitles (getBaseName entry) @ [fullPath]))
            else state
          else state)"

definition matchSubtitles :: "(string \<Rightarrow> string list) \<Rightarrow> VideoFile \<Rightarrow> VideoFile" where
  "matchSubtitles subtitles video =
     (let matchingSubs = subtitles (getBaseName (filename video))
      in if matchingSubs \<noteq> []
         then video \<lparr> subtitlePath := Some (hd matchingSubs), subtitlePaths := matchingSubs \<rparr>
         else video)"

text \<open>
  The filter that drops a video whose path was seen before: the log gets a warning for
  each video dropped.
\<close>

fun uniqueVideos :: "string list \<Rightarrow> VideoFile list \<Rightarrow> log_event list \<times> VideoFile list" where
  "uniqueVideos seenPaths [] = ([], [])"
| "uniqueVideos seenPaths (video # rest) =
     (if filePath video \<in> set seenPaths
      then (case uniqueVideos seenPaths rest of
              (lg, vs) \<Rightarrow> (Warn (''Duplicate video file detected: '' @ filePath video) # lg, vs))
      else (case uniqueVideos (filePath video # seenPaths) rest of
              (lg, vs) \<Rightarrow> (lg, video # vs)))"

definition scanFolderForVideos ::
  "filesystem \<Rightarrow> string \<Rightarrow> nat option \<Rightarrow> log_event list \<times> VideoFile list" where
  "scanFolderForVideos fs folderPath folderSeason =
     (let folderName = path_component folderPath;
          seasonFromFolder =
            (case folderSeason of Some s \<Rightarrow> Some s | None \<Rightarrow> extractSeasonNumber folderName)
      in case readdir fs folderPath of
           Inl err \<Rightarrow> ([Err (''Error scanning folder '' @ folderPath @ '':'')], [])
         | Inr entries \<Rightarrow>
             (case foldl (scanFolderEntry fs folderPath folderName seasonFromFolder)
                         ([], [], \<lambda>_. []) entries of
                (lg, videos, subtitles) \<Rightarrow>
                  (case uniqueVideos [] (map (matchSubtitles subtitles) videos) of
                     (lg', unique) \<Rightarrow> (lg @ lg', unique))))"

text \<open>
  \<open>videos.sort(...)\<close> with the comparator of the program: by season (\<open>null\<close> as 0),
  then by episode. The sort of the JavaScript engine is stable; so is this insertion
  sort.
\<close>

definition compareFiles :: "VideoFile \<Rightarrow> VideoFile \<Rightarrow> rat" where
  "compareFiles a b =
     (let seasonA = (case seasonNumber a of Some s \<Rightarrow> s | None \<Rightarrow> 0);
          seasonB = (case seasonNumber b of Some s \<Rightarrow> s | None \<Rightarrow> 0)
      in if seasonA \<noteq> seasonB then of_nat seasonA - of_nat seasonB
         else episodeNumber a - episodeNumber b)"

fun insert_sorted :: "('a \<Rightarrow> 'a \<Rightarrow> rat) \<Rightarrow> 'a \<Rightarrow> 'a list \<Rightarrow> 'a list" where
  "insert_sorted cmp x [] = [x]"
| "insert_sorted cmp x (y # ys) =
     (if cmp x y < 0 then x # y # ys else y # insert_sorted cmp x ys)"

definition sort_by :: "('a \<Rightarrow> 'a \<Rightarrow> rat) \<Rightarrow> 'a list \<Rightarrow> 'a list" where
  "sort_by cmp xs = foldl (\<lambda>acc x. insert_sorted cmp x acc) [] xs"

definition seriesMedia :: "string \<Rightarrow> string \<Rightarrow> VideoFile list \<Rightarrow> ScannedMedia" where
  \<comment> \<open>the series unit pushed for a folder named \<open>folderName\<close> at \<open>path\<close> with these videos\<close>
  "seriesMedia folderName path videos =
     (let seriesName = extractSeriesNameFromFilenames videos;
          seasonFromFolder = extractSeasonNumber folderName;
          partFromFolder = extractPartNumber folderName
      in \<lparr> media_id = generateSeriesId seriesName folderName seasonFromFolder partFromFolder,
           media_name = seriesName, media_type = Series, media_folderPath = path,
           files = sort_by compareFiles videos,
           media_seasonNumber = seasonFromFolder, media_partNumber = partFromFolder \<rparr>)"

definition movieId :: "string \<Rightarrow> string" where
  "movieId movieTitle = ''movie_'' @ toLowerCase (replace_all (Chr not_alnum) ''_'' movieTitle)"

definition looseMovie :: "string \<Rightarrow> VideoFile \<Rightarrow> ScannedMedia" where
  "looseMovie folder video =
     \<lparr> media_id = movieId (cleanMovieTitle (filename video)),
       media_name = cleanMovieTitle (filename video), media_type = Movie,
       media_folderPath = folder, files = [video],
       media_seasonNumber = None, media_partNumber = None \<rparr>"

definition rootMovie :: "string \<Rightarrow> string \<Rightarrow> ScannedMedia" where
  "rootMovie rootPath entry =
     \<lparr> media_id = movieId (cleanMovieTitle entry),
       media_name = cleanMovieTitle entry, media_type = Movie,
       media_folderPath = rootPath,
       files = [\<lparr> filename = entry, filePath = join rootPath entry, title = getBaseName entry,
                  episodeNumber = snd (extractSeasonAndEpisode entry), seasonNumber = None,
                  subtitlePath = None, subtitlePaths = [],
                  parentFolder = path_component rootPath \<rparr>],
       media_seasonNumber = None, media_partNumber = None \<rparr>"

text \<open>The sub-entries of a folder that are directories; one that cannot be stat-ed is skipped.\<close>

definition subDirsOf :: "filesystem \<Rightarrow> string \<Rightarrow> string list \<Rightarrow> string list" where
  "subDirsOf fs entryPath subEntries =
     filter (\<lambda>subEntry. case stat fs (join entryPath subEntry) of
                           Inl err \<Rightarrow> False
                         | Inr subStats \<Rightarrow> subStats = Directory) subEntries"

text \<open>One sub-folder of a category folder: a series unit when it holds a video.\<close>

definition scanCategoryDir ::
  "filesystem \<Rightarrow> string \<Rightarrow> log_event list \<times> ScannedMedia list
     \<Rightarrow> string \<Rightarrow> log_event list \<times> ScannedMedia list" where
  "scanCategoryDir fs entryPath state subDir =
     (case state of (lg, results) \<Rightarrow>
      let seriesPath = join entryPath subDir in
      case scanFolderForVideos fs seriesPath (extractSeasonNumber subDir) of
        (lg', videos) \<Rightarrow>
          if videos \<noteq> [] then (lg @ lg', results @ [seriesMedia subDir seriesPath videos])
          else (lg @ lg', results))"

text \<open>
  The body of the \<open>try\<close> block for one entry of the root: what it logs, and either
  the error of the first rejected call that the block does not catch itself, or the
  units it pushes.
\<close>

definition tryEntry ::
  "filesystem \<Rightarrow> string \<Rightarrow> string \<Rightarrow> log_event list \<times> (error + ScannedMedia list)" where
  "tryEntry fs rootPath entry =
     (let entryPath = join rootPath entry in
      case stat fs entryPath of
        Inl err \<Rightarrow> ([], Inl err)
      | Inr stats \<Rightarrow>
          if stats = Directory then
            (case scanFolderForVideos fs entryPath None of
               (lg, subVideos) \<Rightarrow>
                 (case readdir fs entryPath of
                    Inl err \<Rightarrow> (lg, Inl err)
                  | Inr subEntries \<Rightarrow>
                      let subDirs = subDirsOf fs entryPath subEntries in
                      if subDirs \<noteq> [] \<and> subVideos = [] then
                        (case foldl (scanCategoryDir fs entryPath) (lg, []) subDirs of
                           (lg', series) \<Rightarrow>
                             (lg', Inr (series @
                                   (if subVideos \<noteq> [] then map (looseMovie entryPath) subVideos
                                    else []))))
                      else if subVideos \<noteq> [] then
                        (lg, Inr [seriesMedia entry entryPath subVideos])
                      else (lg, Inr [])))
          else if stats = File \<and> isVideoFile entry then ([], Inr [rootMovie rootPath entry])
          else ([], Inr []))"

text \<open>
  One iteration of the loop over the entries of the root, with its \<open>catch\<close>: a failed
  entry leaves a warning and no unit.
\<close>

definition scanEntry :: "filesystem \<Rightarrow> string \<Rightarrow> string \<Rightarrow> log_event list \<times> ScannedMedia list" where
  "scanEntry fs rootPath entry =
     (case tryEntry fs rootPath entry of
        (lg, Inl err) \<Rightarrow> (lg @ [Warn (''Could not process '' @ join rootPath entry @ '':'')], [])
      | (lg, Inr units) \<Rightarrow> (lg, units))"

definition scanEntries ::
  "filesystem \<Rightarrow> string \<Rightarrow> string list \<Rightarrow> log_event list \<times> ScannedMedia list" where
  "scanEntries fs rootPath entries =
     foldl (\<lambda>(lg, results) entry.
              case scanEntry fs rootPath entry of
                (lg', units) \<Rightarrow> (lg @ lg', results @ units))
           ([], []) entries"

definition scanDirectory ::
  "filesystem \<Rightarrow> string \<Rightarrow> log_event list \<times> (error + ScannedMedia list)" where
  "scanDirectory fs rootPath =
     (case readdir fs rootPath of
        Inl err \<Rightarrow> ([Err (''Error scanning root directory '' @ rootPath @ '':'')], Inl err)
      | Inr entries \<Rightarrow>
          (case scanEntries fs rootPath entries of (lg, results) \<Rightarrow> (lg, Inr results)))"

definition scanFolder ::
  "filesystem \<Rightarrow> string \<Rightarrow> log_event list \<times> (error + ScannedMedia list)" where
  "scanFolder fs folderPath =
     (if folderPath = [] then ([], Inl (ArgumentError ''Folder path is required''))
      else scanDirectory fs folderPath)"

text \<open>
  \<open>scanMultipleFolders\<close>: the loop over the roots, with its \<open>catch\<close> around each scan.
\<close>

definition scanRoot ::
  "filesystem \<Rightarrow> log_event list \<times> ScannedMedia list \<Rightarrow> string
     \<Rightarrow> log_event list \<times> ScannedMedia list" where
  "scanRoot fs state folderPath =
     (case state of (lg, allResults) \<Rightarrow>
      case scanDirectory fs folderPath of
        (lg', Inl err) \<Rightarrow> (lg @ lg' @ [Err (''Error scanning '' @ folderPath @ '':'')], allResults)
      | (lg', Inr results) \<Rightarrow> (lg @ lg', allResults @ results))"

definition scanMultipleFolders ::
  "filesystem \<Rightarrow> string list \<Rightarrow> log_event list \<times> (error + ScannedMedia list)" where
  "scanMultipleFolders fs folderPaths =
     (case foldl (scanRoot fs) ([], []) folderPaths of
        (lg, allResults) \<Rightarrow> (lg, Inr allResults))"

text \<open>
  An entry of the root is unreadable when it cannot be stat-ed, or when it is a
  directory that cannot be enumerated.
\<close>

definition entry_unreadable :: "filesystem \<Rightarrow> string \<Rightarrow> bool" where
  "entry_unreadable fs p =
     (case stat fs p of
        Inl e \<Rightarrow> True
      | Inr k \<Rightarrow> k = Directory \<and> (case readdir fs p of Inl e \<Rightarrow> True | Inr es \<Rightarrow> False))"

text \<open>
  Notions used to state the error policy, read off the file system alone.
  \<open>video_entries fs folder entries\<close>: the entries of a folder that can be stat-ed, are
  files and have a video extension. \<open>sub_folders fs folder entries\<close>: the entries that
  can be stat-ed and are directories. \<open>folder_units fs name path season\<close>: the series
  unit of the folder at \<open>path\<close>, when the scan of the folder finds a video.
  \<open>entry_units fs rootPath entry\<close>: the units that one entry of the root stands for, on
  its own: none when the entry cannot be stat-ed or is a directory that cannot be
  enumerated; for a category folder (sub-folders and no video of its own) the units of
  its sub-folders, one after the other; for another folder its own unit; for a video
  file a movie. \<open>scanned_folders fs rootPath entries\<close>: the folders whose files the scan
  of the root looks at, that is every directory entry of the root and every sub-folder
  of a category folder.
\<close>

definition video_entries :: "filesystem \<Rightarrow> string \<Rightarrow> string list \<Rightarrow> string list" where
  "video_entries fs folder entries =
     filter (\<lambda>f. stat fs (join folder f) = Inr File \<and> isVideoFile f) entries"

definition sub_folders :: "filesystem \<Rightarrow> string \<Rightarrow> string list \<Rightarrow> string list" where
  "sub_folders fs folder entries =
     filter (\<lambda>d. stat fs (join folder d) = Inr Directory) entries"

definition folder_units ::
  "filesystem \<Rightarrow> string \<Rightarrow> string \<Rightarrow> nat option \<Rightarrow> ScannedMedia list" where
  "folder_units fs name path season =
     (case snd (scanFolderForVideos fs path season) of
        [] \<Rightarrow> []
      | video # videos \<Rightarrow> [seriesMedia name path (video # videos)])"

definition entry_units :: "filesystem \<Rightarrow> string \<Rightarrow> string \<Rightarrow> ScannedMedia list" where
  "entry_units fs rootPath entry =
     (let entryPath = join rootPath entry in
      case stat fs entryPath of
        Inl err \<Rightarrow> []
      | Inr stats \<Rightarrow>
          if stats = Directory then
            (case readdir fs entryPath of
               Inl err \<Rightarrow> []
             | Inr subEntries \<Rightarrow>
                 if sub_folders fs entryPath subEntries \<noteq> []
                    \<and> video_entries fs entryPath subEntries = []
                 then concat (map (\<lambda>subDir. folder_units fs subDir (join entryPath subDir)
                                              (extractSeasonNumber subDir))
                                  (sub_folders fs entryPath subEntries))
                 else folder_units fs entry entryPath None)
          else if stats = File \<and> isVideoFile entry then [rootMovie rootPath entry]
          else [])"

definition scanned_folders :: "filesystem \<Rightarrow> string \<Rightarrow> string list \<Rightarrow> string list" where
  "scanned_folders fs rootPath entries =
     concat (map (\<lambda>entry.
                    let entryPath = join rootPath entry in
                    if stat fs entryPath = Inr Directory then
                      entryPath #
                      (case readdir fs entryPath of
                         Inl err \<Rightarrow> []
                       | Inr subEntries \<Rightarrow>
                           if video_entries fs entryPath subEntries = []
                           then map (join entryPath) (sub_folders fs entryPath subEntries)
                           else [])
                    else []) entries)"

text \<open>
  A small library used to run the classifier: a series folder with two episodes and a
  file that cannot be stat-ed, a broken entry in the root, and no other path.
\<close>

definition example_fs :: filesystem where
  "example_fs =
     \<lparr> readdir = (\<lambda>p. if p = ''/lib'' then Inr [''broken'', ''86'']
                       else if p = ''/lib/86'' then Inr [''86 - 02.mkv'', ''gone.mkv'', ''86 - 01.mkv'']
                       else Inl (FsError ''ENOENT'')),
       stat = (\<lambda>p. if p = ''/lib'' \<or> p = ''/lib/86'' then Inr Directory
                    else if p = ''/lib/broken'' \<or> p = ''/lib/86/gone.mkv''
                    then Inl (FsError ''EACCES'')
                    else Inr File) \<rparr>"

text \<open>
  A library with a failure at every level: an entry of the root that cannot be stat-ed,
  a series folder with a file that cannot be stat-ed, and a category folder with a
  sub-folder that cannot be enumerated next to a good one.
\<close>

definition example_library :: filesystem where
  "example_library =
     \<lparr> readdir = (\<lambda>p. if p = ''/lib'' then Inr [''broken'', ''86'', ''Series'']
                       else if p = ''/lib/86''
                       then Inr [''86 - 02.mkv'', ''gone.mkv'', ''86 - 01.mkv'']
                       else if p = ''/lib/Series'' then Inr [''locked'', ''Show'']
                       else if p = ''/lib/Series/Show'' then Inr [''lost.mkv'', ''Show 01.mkv'']
                       else Inl (FsError ''EACCES'')),
       stat = (\<lambda>p. if p = ''/lib'' \<or> p = ''/lib/86'' \<or> p = ''/lib/Series''
                       \<or> p = ''/lib/Series/locked'' \<or> p = ''/lib/Series/Show''
                    then Inr Directory
                    else if p = ''/lib/broken'' \<or> p = ''/lib/86/gone.mkv''
                            \<or> p = ''/lib/Series/Show/lost.mkv''
                    then Inl (FsError ''EACCES'')
                    else Inr File) \<rparr>"

section \<open>Provider search (\<open>anilistHandler.searchAndFetchMetadata\<close>)\<close>

text \<open>
  The network is a parameter of the model: \<open>searchAnimeMultiple\<close> is the outcome of
  the search request for a query (after the retries of that function), \<open>getEpisodes\<close>
  the outcome of the \<open>n\<close>-th attempt to fetch the episodes of a candidate. Each is a
  rejection or a value.
\<close>

datatype provider_error = RateLimited | OtherFailure string

definition isRateLimitError :: "provider_error \<Rightarrow> bool" where
  "isRateLimitError e = (e = RateLimited)"

record EpisodeMetadata =
  ep_episodeNumber :: rat
  ep_seasonNumber :: "nat option"
  ep_title :: string
  ep_description :: "string option"
  ep_airDate :: "string option"
  ep_thumbnail :: "string option"
  ep_thumbnailLocal :: "string option"

record AniListMedia =
  al_id :: nat
  al_romaji :: "string option"
  al_english :: "string option"
  al_native :: "string option"
  al_description :: "string option"
  al_genres :: "string list"
  al_coverLarge :: "string option"
  al_coverExtraLarge :: "string option"
  al_bannerImage :: "string option"
  al_episodes :: "nat option"
  al_status :: "string option"

record SeriesMetadata =
  sm_seriesId :: string
  sm_title :: string
  sm_description :: string
  sm_genres :: "string list"
  sm_poster :: "string option"
  sm_banner :: "string option"
  sm_episodes :: "EpisodeMetadata list"
  sm_totalEpisodes :: "nat option"

record anilist_api =
  searchAnimeMultiple :: "string \<Rightarrow> provider_error + AniListMedia list"
  getEpisodes :: "AniListMedia \<Rightarrow> nat option \<Rightarrow> nat \<Rightarrow> provider_error + EpisodeMetadata list"

text \<open>\<open>a || b\<close> on strings that may be missing: the first one that is present and not empty.\<close>

definition truthy :: "string option \<Rightarrow> bool" where
  "truthy s = (case s of None \<Rightarrow> False | Some t \<Rightarrow> t \<noteq> [])"

definition or_else :: "string option \<Rightarrow> string option \<Rightarrow> string option" where
  "or_else a b = (if truthy a then a else b)"

definition isReleased :: "AniListMedia \<Rightarrow> bool" where
  "isReleased media =
     (let status = (case al_status media of None \<Rightarrow> [] | Some s \<Rightarrow> toUpperCase s)
      in \<not> (status = ''NOT_YET_RELEASED'' \<or> status = ''CANCELLED'' \<or> status = ''HIATUS''))"

definition searchQueryFor :: "string \<Rightarrow> nat option \<Rightarrow> nat option \<Rightarrow> string" where
  "searchQueryFor seriesName season part =
     (case part of
        Some p \<Rightarrow>
          if p > 1 then seriesName @ '' Part '' @ toString p
          else (case season of
                  Some s \<Rightarrow> if s > 1 then seriesName @ '' Season '' @ toString s else seriesName
                | None \<Rightarrow> seriesName)
      | None \<Rightarrow>
          (case season of
             Some s \<Rightarrow> if s > 1 then seriesName @ '' Season '' @ toString s else seriesName
           | None \<Rightarrow> seriesName))"

definition formatMetadata ::
  "AniListMedia \<Rightarrow> EpisodeMetadata list \<Rightarrow> nat option \<Rightarrow> SeriesMetadata" where
  "formatMetadata media episodes season =
     (let fullTitle = (case or_else (al_english media) (or_else (al_romaji media) (al_native media)) of
                     None \<Rightarrow> [] | Some t \<Rightarrow> t);
          hasSeason = (case season of None \<Rightarrow> False | Some s \<Rightarrow> s \<noteq> 0);
          seasonNo = (case season of None \<Rightarrow> 0 | Some s \<Rightarrow> s)
      in \<lparr> sm_seriesId = ''anilist_'' @ toString (al_id media)
                       @ (if hasSeason then ''_s'' @ padStart 2 CHR ''0'' (toString seasonNo) else []),
           sm_title = (if hasSeason then fullTitle @ '' (Season '' @ toString seasonNo @ '')'' else fullTitle),
           sm_description = (case al_description media of None \<Rightarrow> [] | Some d \<Rightarrow> d),
           sm_genres = al_genres media,
           sm_poster = (let p = or_else (al_coverExtraLarge media) (al_coverLarge media)
                        in if truthy p then p else None),
           sm_banner = (if truthy (al_bannerImage media) then al_bannerImage media else None),
           sm_episodes = episodes,
           sm_totalEpisodes = al_episodes media \<rparr>)"

text \<open>
  The retry loop around \<open>getEpisodes\<close>: up to three retries after a rate limit; any
  other rejection, and the rate limit of the fourth attempt, is thrown.
\<close>

function fetchEpisodes ::
  "(nat \<Rightarrow> provider_error + EpisodeMetadata list) \<Rightarrow> nat
     \<Rightarrow> provider_error + EpisodeMetadata list" where
  "fetchEpisodes attempt retries =
     (case attempt retries of
        Inr episodes \<Rightarrow> Inr episodes
      | Inl err \<Rightarrow>
          if isRateLimitError err \<and> retries < 3 then fetchEpisodes attempt (retries + 1)
          else Inl err)"
  by pat_completeness auto
termination
  by (relation "measure (\<lambda>(attempt, retries). 3 - retries)") auto

text \<open>
  The first loop over the candidates: the first one that is released and, when the
  folder's episode count is given, reports at least that many episodes.
\<close>

definition hasEnoughEpisodes :: "nat option \<Rightarrow> AniListMedia \<Rightarrow> bool" where
  "hasEnoughEpisodes folderEpisodeCount media =
     (case folderEpisodeCount of
        None \<Rightarrow> True
      | Some c \<Rightarrow> (case al_episodes media of None \<Rightarrow> False | Some n \<Rightarrow> \<not> n < c))"

definition firstValid :: "AniListMedia list \<Rightarrow> nat option \<Rightarrow> AniListMedia option" where
  "firstValid results folderEpisodeCount =
     find (\<lambda>media. isReleased media \<and> hasEnoughEpisodes folderEpisodeCount media) results"

text \<open>
  The second loop, run when the first accepted nothing and the folder's episode count
  is given: the first candidate whose episode count is \<open>null\<close>.
\<close>

definition firstUnknown :: "AniListMedia list \<Rightarrow> nat option \<Rightarrow> AniListMedia option" where
  "firstUnknown results folderEpisodeCount =
     (case folderEpisodeCount of
        None \<Rightarrow> None
      | Some c \<Rightarrow> find (\<lambda>media. al_episodes media = None) results)"

definition acceptedCandidate :: "AniListMedia list \<Rightarrow> nat option \<Rightarrow> AniListMedia option" where
  "acceptedCandidate results folderEpisodeCount =
     (case firstValid results folderEpisodeCount of
        Some media \<Rightarrow> Some media
      | None \<Rightarrow> firstUnknown results folderEpisodeCount)"

text \<open>
  The two loops followed by the fetch of the episodes of the accepted candidate. The
  source has this code twice, for the results of the query and for the results of the
  query without season.
\<close>

definition acceptAndFetch ::
  "anilist_api \<Rightarrow> AniListMedia list \<Rightarrow> nat option \<Rightarrow> nat option
     \<Rightarrow> provider_error + SeriesMetadata option" where
  "acceptAndFetch api results season folderEpisodeCount =
     (case acceptedCandidate results folderEpisodeCount of
        None \<Rightarrow> Inr None
      | Some media \<Rightarrow>
          (case fetchEpisodes (getEpisodes api media season) 0 of
             Inl err \<Rightarrow> Inl err
           | Inr episodes \<Rightarrow> Inr (Some (formatMetadata media episodes season))))"

definition searchBody ::
  "anilist_api \<Rightarrow> string \<Rightarrow> nat option \<Rightarrow> nat option \<Rightarrow> nat option
     \<Rightarrow> provider_error + SeriesMetadata option" where
  "searchBody api seriesName season part folderEpisodeCount =
     (case searchAnimeMultiple api (searchQueryFor seriesName season part) of
        Inl err \<Rightarrow> Inl err
      | Inr searchResults \<Rightarrow>
          if searchResults = []
             \<and> ((case part of Some p \<Rightarrow> p > 1 | None \<Rightarrow> False)
                \<or> (case season of Some s \<Rightarrow> s > 1 | None \<Rightarrow> False))
          then (case searchAnimeMultiple api seriesName of
                  Inl err \<Rightarrow> Inl err
                | Inr resultsWithoutSeason \<Rightarrow>
                    if resultsWithoutSeason \<noteq> []
                    then acceptAndFetch api resultsWithoutSeason season folderEpisodeCount
                    else Inr None)
          else acceptAndFetch api searchResults season folderEpisodeCount)"

text \<open>\<open>searchAndFetchMetadata\<close>: the body above inside \<open>try\<close>; every rejection becomes \<open>null\<close>.\<close>

definition searchAndFetchMetadata ::
  "anilist_api \<Rightarrow> string \<Rightarrow> nat option \<Rightarrow> nat option \<Rightarrow> nat option
     \<Rightarrow> SeriesMetadata option" where
  "searchAndFetchMetadata api seriesName season part folderEpisodeCount =
     (case searchBody api seriesName season part folderEpisodeCount of
        Inl err \<Rightarrow> None
      | Inr found \<Rightarrow> found)"

text \<open>
  The claim of the specification about the search, in its words: candidates that are
  not yet released, cancelled or on hiatus are rejected; of the others the first one
  with enough episodes is accepted, else the first one with an unknown episode count.
\<close>

definition spec_acceptedCandidate :: "AniListMedia list \<Rightarrow> nat \<Rightarrow> AniListMedia option" where
  "spec_acceptedCandidate results c =
     (let remaining = filter isReleased results in
      case find (\<lambda>media. case al_episodes media of None \<Rightarrow> False | Some n \<Rightarrow> n \<ge> c) remaining of
        Some media \<Rightarrow> Some media
      | None \<Rightarrow> find (\<lambda>media. al_episodes media = None) remaining)"

section \<open>Metadata reconciliation (the \<open>scan-and-fetch-metadata\<close> handler)\<close>

record FileEpisode =
  fe_episodeNumber :: rat
  fe_seasonNumber :: "nat option"
  fe_filePath :: string
  fe_subtitlePath :: "string option"
  fe_subtitlePaths :: "string list"
  fe_filename :: string
  fe_title :: string

text \<open>
  An entry of the metadata store. The store holds JSON objects; the fields whose
  absence the handler tests (\<open>title\<close>, \<open>posterLocal\<close>, \<open>fileEpisodes\<close>) and the ones it
  sets only in some branches are optional. The other fields a provider returns
  (\<open>status\<close>, \<open>format\<close>, \<open>studios\<close>, ...) are copied like \<open>description\<close> and are left out.
\<close>

record SeriesRecord =
  seriesId :: string
  rec_title :: "string option"
  rec_description :: string
  rec_genres :: "string list"
  rec_poster :: "string option"
  rec_posterLocal :: "string option"
  rec_banner :: "string option"
  rec_bannerLocal :: "string option"
  rec_episodes :: "EpisodeMetadata list"
  rec_fileEpisodes :: "FileEpisode list option"
  rec_folderPath :: "string option"
  rec_type :: "media_type option"
  rec_source :: "string option"
  rec_totalEpisodes :: "nat option"

type_synonym store = "string \<rightharpoonup> SeriesRecord"

text \<open>
  What the handler reaches outside the program: the file system, the stored metadata
  file (what reading and parsing it gives), whether writing it fails, the MyAnimeList
  search (the outcome of \<open>malHandler.searchAndFetchMetadata\<close>), the AniList network
  calls, the image cache (URL to local path) and the thumbnail generator (video path to
  image path).
\<close>

record environment =
  env_fs :: filesystem
  env_stored :: "error + store"
  env_write :: "error option"
  env_mal :: "string \<Rightarrow> nat option \<Rightarrow> nat option \<Rightarrow> nat \<Rightarrow> provider_error + SeriesMetadata option"
  env_anilist :: anilist_api
  env_cacheImages :: "string list \<Rightarrow> (string \<rightharpoonup> string)"
  env_generateThumbnail :: "string \<Rightarrow> string option"

subsection \<open>\<open>metadataHandler\<close>\<close>

definition loadMetadata :: "environment \<Rightarrow> store" where
  "loadMetadata env = (case env_stored env of Inl err \<Rightarrow> Map.empty | Inr m \<Rightarrow> m)"

definition fileEpisodesOf :: "SeriesRecord \<Rightarrow> FileEpisode list" where
  \<comment> \<open>\<open>data.fileEpisodes || []\<close>\<close>
  "fileEpisodesOf r = (case rec_fileEpisodes r of None \<Rightarrow> [] | Some l \<Rightarrow> l)"

definition cleanStore :: "store \<Rightarrow> store" where
  \<comment> \<open>the loop that copies the entries with at least one file episode\<close>
  "cleanStore m =
     (\<lambda>k. case m k of
             None \<Rightarrow> None
           | Some r \<Rightarrow> if length (fileEpisodesOf r) > 0 then Some r else None)"

definition saveMetadata :: "environment \<Rightarrow> store \<Rightarrow> error + store" where
  \<comment> \<open>the store written to disk, or the error thrown\<close>
  "saveMetadata env m =
     (case env_write env of Some err \<Rightarrow> Inl err | None \<Rightarrow> Inr (cleanStore m))"

subsection \<open>Cache check\<close>

definition seasonSuffixRx :: rx where
  \<comment> \<open>\<open>/\s*\(season\s*\d+\)/gi\<close>\<close>
  "seasonSuffixRx =
     Seqs [Star space, Ch CHR ''('', LitI ''season'', Star space, Plus digit, Ch CHR '')'']"

definition normalizeForComparison :: "string \<Rightarrow> string" where
  "normalizeForComparison t =
     trim
       (replace_all (Plus space) '' ''
       (replace_all (Chr (\<lambda>c. \<not> (is_lower c \<or> is_digit c \<or> is_space c))) []
       (replace_all seasonSuffixRx [] t)))"

definition normalizedCached :: "string \<Rightarrow> string" where
  "normalizedCached cached = normalizeForComparison (trim (toLowerCase cached))"

definition normalizedSeries :: "ScannedMedia \<Rightarrow> string" where
  "normalizedSeries media = normalizeForComparison (trim (toLowerCase (media_name media)))"

definition titlesMatch :: "string \<Rightarrow> ScannedMedia \<Rightarrow> bool" where
  "titlesMatch cached media =
     (normalizedCached cached = normalizedSeries media
      \<or> (length (normalizedSeries media) \<ge> 5
         \<and> (str_includes (normalizedCached cached) (normalizedSeries media)
            \<or> str_includes (normalizedSeries media) (normalizedCached cached))))"

text \<open>
  The normalization, written with list functions; the cache check is stated with them.
  \<open>season_marker s\<close>: when \<open>s\<close> starts with a season marker (white space, an opening
  parenthesis, \<open>season\<close> in any case, white space, digits, a closing parenthesis), the
  text after the marker. \<open>strip_season_markers\<close> drops every marker, from left to
  right; \<open>collapse_whitespace\<close> turns every maximal run of white space into one space.
  \<open>spec_normalize\<close>: lower case and trim, drop the season markers, keep the letters
  \<open>a\<close> to \<open>z\<close>, the digits and the white space, collapse the white space, trim.
\<close>

definition season_marker :: "string \<Rightarrow> string option" where
  "season_marker s =
     (let s1 = dropWhile is_space s;
          s2 = dropWhile is_space (drop 7 s1);
          s3 = dropWhile is_digit s2
      in if take 1 s1 = ''('' \<and> toUpperCase (take 6 (drop 1 s1)) = ''SEASON''
            \<and> takeWhile is_digit s2 \<noteq> [] \<and> take 1 s3 = '')''
         then Some (drop 1 s3) else None)"

function strip_season_markers :: "string \<Rightarrow> string" where
  "strip_season_markers [] = []"
| "strip_season_markers (c # t) =
     (case season_marker (c # t) of
        Some rest \<Rightarrow> strip_season_markers rest
      | None \<Rightarrow> c # strip_season_markers t)"
  by pat_completeness auto
termination
proof (relation "measure length")
  show "wf (measure length)" by simp
next
  fix c t rest
  assume "season_marker (c # t) = Some rest"
  let ?s1 = "dropWhile is_space (c # t)"
  let ?s2 = "dropWhile is_space (drop 7 ?s1)"
  let ?s3 = "dropWhile is_digit ?s2"
  from \<open>season_marker (c # t) = Some rest\<close>
  have r: "rest = drop 1 ?s3" and ne: "take 1 ?s3 = '')''"
    by (simp_all add: season_marker_def Let_def split: if_splits)
  have "take 1 ?s3 \<noteq> []" by (simp only: ne) simp
  then have "?s3 \<noteq> []" by (metis take_Nil)
  then have "length rest < length ?s3" using r by simp
  also have "\<dots> \<le> length ?s2" by (rule length_dropWhile_le)
  also have "\<dots> \<le> length (drop 7 ?s1)" by (rule length_dropWhile_le)
  also have "\<dots> \<le> length ?s1" by simp
  also have "\<dots> \<le> length (c # t)" by (rule length_dropWhile_le)
  finally show "(rest, c # t) \<in> measure length" by simp
next
  fix c t
  show "(t, c # t) \<in> measure length" by simp
qed

function collapse_whitespace :: "string \<Rightarrow> string" where
  "collapse_whitespace [] = []"
| "collapse_whitespace (c # t) =
     (if is_space c then CHR '' '' # collapse_whitespace (dropWhile is_space t)
      else c # collapse_whitespace t)"
  by pat_completeness auto
termination
  by (relation "measure length") (auto simp: length_dropWhile_le less_Suc_eq_le)

definition spec_normalize :: "string \<Rightarrow> string" where
  "spec_normalize s =
     trim (collapse_whitespace
            (filter (\<lambda>c. is_lower c \<or> is_digit c \<or> is_space c)
               (strip_season_markers (trim (toLowerCase s)))))"

text \<open>
  The three ways out of the cache check for a unit: the cached entry is used; the
  mismatch is logged, the copied entry deleted and the metadata fetched; the metadata is
  fetched without more ado (no usable cached entry, or a mismatch on a name shorter than
  3 characters).
\<close>

datatype cache_decision = UseCache | DiscardAndFetch | Fetch

definition cacheDecision :: "SeriesRecord option \<Rightarrow> ScannedMedia \<Rightarrow> cache_decision" where
  "cacheDecision existing media =
     (case existing of
        None \<Rightarrow> Fetch
      | Some ex \<Rightarrow>
          if truthy (rec_title ex) \<and> truthy (rec_posterLocal ex) then
            if \<not> titlesMatch (the (rec_title ex)) media \<and> length (normalizedSeries media) \<ge> 3
            then DiscardAndFetch
            else if titlesMatch (the (rec_title ex)) media then UseCache
            else Fetch
          else Fetch)"

definition seasonInParens :: rx where
  \<comment> \<open>\<open>/\(Season\s*\d+\)/i\<close>\<close>
  "seasonInParens = Seqs [Ch CHR ''('', LitI ''Season'', Star space, Plus digit, Ch CHR '')'']"

definition seasonWord :: rx where
  \<comment> \<open>\<open>/Season\s*\d+/i\<close>\<close>
  "seasonWord = Seqs [LitI ''Season'', Star space, Plus digit]"

definition withSeason :: "rx \<Rightarrow> string \<Rightarrow> nat option \<Rightarrow> string" where
  \<comment> \<open>the title, with the season appended when the unit has one and the title does not show one\<close>
  "withSeason pattern t season =
     (case season of
        None \<Rightarrow> t
      | Some n \<Rightarrow> if rx_test pattern t then t else t @ '' (Season '' @ toString n @ '')'')"

definition toFileEpisode :: "VideoFile \<Rightarrow> FileEpisode" where
  "toFileEpisode f =
     \<lparr> fe_episodeNumber = episodeNumber f, fe_seasonNumber = seasonNumber f,
       fe_filePath = filePath f, fe_subtitlePath = subtitlePath f,
       fe_subtitlePaths = subtitlePaths f, fe_filename = filename f, fe_title = title f \<rparr>"

definition cacheHitRecord :: "SeriesRecord \<Rightarrow> ScannedMedia \<Rightarrow> SeriesRecord" where
  "cacheHitRecord ex media =
     ex \<lparr> seriesId := media_id media,
          rec_title := Some (withSeason seasonInParens (the (rec_title ex)) (media_seasonNumber media)),
          rec_fileEpisodes := Some (map toFileEpisode (files media)),
          rec_folderPath := Some (media_folderPath media),
          rec_type := Some (media_type media) \<rparr>"

subsection \<open>Fetching\<close>

definition isInteger :: "rat \<Rightarrow> bool" where
  "isInteger q = (of_int \<lfloor>q\<rfloor> = q)"

definition canonicalEpisodeCount :: "ScannedMedia \<Rightarrow> nat" where
  "canonicalEpisodeCount media = length (filter (\<lambda>f. isInteger (episodeNumber f)) (files media))"

definition fetchMetadata :: "environment \<Rightarrow> ScannedMedia \<Rightarrow> (SeriesMetadata \<times> string) option" where
  "fetchMetadata env media =
     (let fromMal =
            (case env_mal env (media_name media) (media_seasonNumber media)
                    (media_partNumber media) (canonicalEpisodeCount media) of
               Inl err \<Rightarrow> None
             | Inr found \<Rightarrow> found)
      in case fromMal of
           Some m \<Rightarrow> Some (m, ''mal'')
         | None \<Rightarrow>
             (case searchAndFetchMetadata (env_anilist env) (media_name media)
                     (media_seasonNumber media) (media_partNumber media)
                     (Some (canonicalEpisodeCount media)) of
                Some m \<Rightarrow> Some (m, ''anilist'')
              | None \<Rightarrow> None))"

text \<open>
  \<open>fileEpisodeMap\<close>: the keys \<open>season_episode\<close> and \<open>null_episode\<close> of the source are the
  pairs of a season and an episode number; \<open>Map.set\<close> keeps the position of a key that
  is already there.
\<close>

fun map_set :: "'k \<Rightarrow> 'v \<Rightarrow> ('k \<times> 'v) list \<Rightarrow> ('k \<times> 'v) list" where
  "map_set k v [] = [(k, v)]"
| "map_set k v ((k', v') # kvs) =
     (if k = k' then (k, v) # kvs else (k', v') # map_set k v kvs)"

definition fileEpisodeMap :: "VideoFile list \<Rightarrow> ((nat option \<times> rat) \<times> string) list" where
  "fileEpisodeMap fs =
     foldl (\<lambda>m f. map_set (seasonNumber f, episodeNumber f) (filePath f) m) [] fs"

definition videoPathFor ::
  "((nat option \<times> rat) \<times> string) list \<Rightarrow> nat option \<Rightarrow> rat \<Rightarrow> string option" where
  "videoPathFor m epSeason epNumber =
     (case map_of m (epSeason, epNumber) of
        Some p \<Rightarrow> Some p
      | None \<Rightarrow>
          (case (if epSeason \<noteq> None then map_of m (None, epNumber) else None) of
             Some p \<Rightarrow> Some p
           | None \<Rightarrow> map_option snd (find (\<lambda>kv. snd (fst kv) = epNumber) m)))"

definition withLocalThumb ::
  "environment \<Rightarrow> (string \<rightharpoonup> string) \<Rightarrow> ((nat option \<times> rat) \<times> string) list
     \<Rightarrow> EpisodeMetadata \<Rightarrow> EpisodeMetadata" where
  "withLocalThumb env cachedImages m ep =
     (let cached = (if truthy (ep_thumbnail ep) then cachedImages (the (ep_thumbnail ep)) else None)
      in ep \<lparr> ep_thumbnailLocal :=
                (case cached of
                   Some p \<Rightarrow> Some p
                 | None \<Rightarrow>
                     (case videoPathFor m (ep_seasonNumber ep) (ep_episodeNumber ep) of
                        None \<Rightarrow> None
                      | Some videoPath \<Rightarrow> env_generateThumbnail env videoPath)) \<rparr>)"

definition toFixed1 :: "rat \<Rightarrow> string" where
  \<comment> \<open>\<open>q.toFixed(1)\<close> for a non-negative multiple of one tenth\<close>
  "toFixed1 q = toString (nat \<lfloor>q\<rfloor>) @ ''.'' @ toString (nat \<lfloor>10 * q\<rfloor> mod 10)"

definition numberToString :: "rat \<Rightarrow> string" where
  "numberToString q = (if isInteger q then toString (nat \<lfloor>q\<rfloor>) else toFixed1 q)"

definition decimalEpisode :: "environment \<Rightarrow> VideoFile \<Rightarrow> EpisodeMetadata" where
  "decimalEpisode env fileEp =
     \<lparr> ep_episodeNumber = episodeNumber fileEp, ep_seasonNumber = seasonNumber fileEp,
       ep_title = ''Episode '' @ toFixed1 (episodeNumber fileEp),
       ep_description = None, ep_airDate = None, ep_thumbnail = None,
       ep_thumbnailLocal = env_generateThumbnail env (filePath fileEp) \<rparr>"

definition episodesWithLocalThumbs ::
  "environment \<Rightarrow> (string \<rightharpoonup> string) \<Rightarrow> ScannedMedia \<Rightarrow> SeriesMetadata \<Rightarrow> EpisodeMetadata list" where
  "episodesWithLocalThumbs env cachedImages media fetched =
     (let fromProvider =
            map (withLocalThumb env cachedImages (fileEpisodeMap (files media))) (sm_episodes fetched);
          processedEpisodeNumbers = set (map ep_episodeNumber fromProvider)
      in fromProvider
         @ map (decimalEpisode env)
             (filter (\<lambda>fileEp. \<not> isInteger (episodeNumber fileEp)
                               \<and> episodeNumber fileEp \<notin> processedEpisodeNumbers)
                     (files media)))"

definition fetchedRecord :: "environment \<Rightarrow> ScannedMedia \<Rightarrow> SeriesMetadata \<Rightarrow> string \<Rightarrow> SeriesRecord" where
  "fetchedRecord env media fetched src =
     (let imagesToCache =
            filter (\<lambda>u. u \<noteq> [])
              (map the (filter (\<lambda>u. u \<noteq> None)
                 ([sm_poster fetched, sm_banner fetched]
                  @ map ep_thumbnail (filter (\<lambda>ep. truthy (ep_thumbnail ep)) (sm_episodes fetched)))));
          cachedImages = env_cacheImages env imagesToCache
      in \<lparr> seriesId = media_id media,
           rec_title = Some (withSeason seasonInParens (sm_title fetched) (media_seasonNumber media)),
           rec_description = sm_description fetched,
           rec_genres = sm_genres fetched,
           rec_poster = sm_poster fetched,
           rec_posterLocal = (if truthy (sm_poster fetched) then cachedImages (the (sm_poster fetched))
                              else None),
           rec_banner = sm_banner fetched,
           rec_bannerLocal = (if truthy (sm_banner fetched) then cachedImages (the (sm_banner fetched))
                              else None),
           rec_episodes = episodesWithLocalThumbs env cachedImages media fetched,
           rec_fileEpisodes = Some (map toFileEpisode (files media)),
           rec_folderPath = Some (media_folderPath media),
           rec_type = Some (media_type media),
           rec_source = Some src,
           rec_totalEpisodes = sm_totalEpisodes fetched \<rparr>)"

definition localEpisode :: "environment \<Rightarrow> VideoFile \<Rightarrow> EpisodeMetadata" where
  "localEpisode env f =
     \<lparr> ep_episodeNumber = episodeNumber f, ep_seasonNumber = seasonNumber f,
       ep_title = (if title f \<noteq> [] then title f
                   else ''Episode '' @ numberToString (episodeNumber f)),
       ep_description = None, ep_airDate = None, ep_thumbnail = None,
       ep_thumbnailLocal = env_generateThumbnail env (filePath f) \<rparr>"

definition localRecord :: "environment \<Rightarrow> ScannedMedia \<Rightarrow> SeriesRecord" where
  "localRecord env media =
     \<lparr> seriesId = media_id media,
       rec_title = Some (withSeason seasonWord (media_name media) (media_seasonNumber media)),
       rec_description = [],
       rec_genres = [],
       rec_poster = None, rec_posterLocal = None, rec_banner = None, rec_bannerLocal = None,
       rec_episodes = map (localEpisode env) (files media),
       rec_fileEpisodes = Some (map toFileEpisode (files media)),
       rec_folderPath = Some (media_folderPath media),
       rec_type = Some (media_type media),
       rec_source = Some ''local'',
       rec_totalEpisodes = None \<rparr>"

definition freshRecord :: "environment \<Rightarrow> ScannedMedia \<Rightarrow> SeriesRecord" where
  "freshRecord env media =
     (case fetchMetadata env media of
        Some (fetched, src) \<Rightarrow> fetchedRecord env media fetched src
      | None \<Rightarrow> localRecord env media)"

subsection \<open>The handler\<close>

text \<open>One iteration of the loop over the scanned units; the state is \<open>newMetadata\<close>.\<close>

definition processMedia :: "environment \<Rightarrow> store \<Rightarrow> store \<Rightarrow> ScannedMedia \<Rightarrow> store" where
  "processMedia env existingMetadata newMetadata media =
     (if files media = [] then newMetadata
      else
        let mediaId = media_id media;
            copied = (case existingMetadata mediaId of
                        Some ex \<Rightarrow> newMetadata (mediaId \<mapsto> ex)
                      | None \<Rightarrow> newMetadata)
        in case cacheDecision (existingMetadata mediaId) media of
             UseCache \<Rightarrow> copied (mediaId \<mapsto> cacheHitRecord (the (existingMetadata mediaId)) media)
           | DiscardAndFetch \<Rightarrow> (copied (mediaId := None)) (mediaId \<mapsto> freshRecord env media)
           | Fetch \<Rightarrow> copied (mediaId \<mapsto> freshRecord env media))"

definition mergedMetadata :: "environment \<Rightarrow> ScannedMedia list \<Rightarrow> store" where
  "mergedMetadata env scannedMedia =
     (let existingMetadata = loadMetadata env;
          newMetadata = foldl (processMedia env existingMetadata) Map.empty scannedMedia
      in existingMetadata ++ newMetadata)"

definition scanAndFetchMetadata :: "environment \<Rightarrow> string \<Rightarrow> error + store" where
  \<comment> \<open>the store the handler saves, or the error it throws\<close>
  "scanAndFetchMetadata env folderPath =
     (case snd (scanFolder (env_fs env) folderPath) of
        Inl err \<Rightarrow> Inl err
      | Inr scannedMedia \<Rightarrow> saveMetadata env (cleanStore (mergedMetadata env scannedMedia)))"

section \<open>Example data\<close>

text \<open>
  A unit and cached entries used to run the reconciliation on concrete inputs: the unit
  ``My Show'', season 2, with one file; an entry cached under the title
  ``My Show (Season 2)'' and one cached under ``My Show''; the unit and the entry of the
  series ``86''.
\<close>

definition example_file :: VideoFile where
  "example_file =
     \<lparr> filename = ''My Show - 01.mkv'', filePath = ''/lib/My Show S2/My Show - 01.mkv'',
       title = ''My Show - 01'', episodeNumber = 1, seasonNumber = Some 2,
       subtitlePath = None, subtitlePaths = [], parentFolder = ''My Show S2'' \<rparr>"

definition example_media :: ScannedMedia where
  "example_media =
     \<lparr> media_id = ''my_show_s02'', media_name = ''My Show'', media_type = Series,
       media_folderPath = ''/lib/My Show S2'', files = [example_file],
       media_seasonNumber = Some 2, media_partNumber = None \<rparr>"

definition example_cached :: SeriesRecord where
  "example_cached =
     \<lparr> seriesId = ''my_show_s02'', rec_title = Some ''My Show (Season 2)'',
       rec_description = ''A show.'', rec_genres = [''Drama''],
       rec_poster = Some ''https://img/p.jpg'', rec_posterLocal = Some ''/cache/p.jpg'',
       rec_banner = None, rec_bannerLocal = None, rec_episodes = [],
       rec_fileEpisodes = Some [], rec_folderPath = Some ''/old/My Show'',
       rec_type = Some Series, rec_source = Some ''anilist'', rec_totalEpisodes = Some 12 \<rparr>"

definition example_cached_plain :: SeriesRecord where
  "example_cached_plain = example_cached \<lparr> rec_title := Some ''My Show'' \<rparr>"

definition media_86 :: ScannedMedia where
  "media_86 =
     \<lparr> media_id = ''86'', media_name = ''86'', media_type = Series,
       media_folderPath = ''/lib/86'',
       files = [example_file \<lparr> filename := ''86 - 01.mkv'', filePath := ''/lib/86/86 - 01.mkv'',
                               title := ''86 - 01'', seasonNumber := None,
                               parentFolder := ''86'' \<rparr>],
       media_seasonNumber = None, media_partNumber = None \<rparr>"

definition cached_86 :: SeriesRecord where
  "cached_86 = example_cached \<lparr> seriesId := ''86'', rec_title := Some ''86'' \<rparr>"

text \<open>
  A candidate that is not yet released and has no episode count, and a provider that
  answers every search with it.
\<close>

definition unreleased_candidate :: AniListMedia where
  "unreleased_candidate =
     \<lparr> al_id = 7, al_romaji = Some ''Shou 2'', al_english = Some ''Show 2'', al_native = None,
       al_description = None, al_genres = [], al_coverLarge = None, al_coverExtraLarge = None,
       al_bannerImage = None, al_episodes = None, al_status = Some ''NOT_YET_RELEASED'' \<rparr>"

definition example_api :: anilist_api where
  "example_api =
     \<lparr> searchAnimeMultiple = (\<lambda>query. Inr [unreleased_candidate]),
       getEpisodes = (\<lambda>media season attempt. Inr []) \<rparr>"

text \<open>
  An environment for the handler: a root with one video file, a stored entry for that
  file and a stored entry without file episodes, providers that find nothing.
\<close>

definition movie_fs :: filesystem where
  "movie_fs =
     \<lparr> readdir = (\<lambda>p. if p = ''/m'' then Inr [''a.mkv''] else Inl (FsError ''ENOENT'')),
       stat = (\<lambda>p. if p = ''/m'' then Inr Directory
                    else if p = ''/m/a.mkv'' then Inr File else Inl (FsError ''ENOENT'')) \<rparr>"

definition stale_record :: SeriesRecord where
  "stale_record = example_cached \<lparr> seriesId := ''stale'', rec_fileEpisodes := None \<rparr>"

definition example_env :: environment where
  "example_env =
     \<lparr> env_fs = movie_fs,
       env_stored = Inr [''stale'' \<mapsto> stale_record],
       env_write = None,
       env_mal = (\<lambda>name season part count. Inr None),
       env_anilist = \<lparr> searchAnimeMultiple = (\<lambda>query. Inr []),
                        getEpisodes = (\<lambda>media season attempt. Inl RateLimited) \<rparr>,
       env_cacheImages = (\<lambda>urls. Map.empty),
       env_generateThumbnail = (\<lambda>path. None) \<rparr>"

section \<open>Properties of the identifier generator\<close>

text \<open>
  C8. For a series name of length at least 2 the identifier does not depend on the
  folder name: two calls that differ only in the folder name give the same identifier,
  for every season and part. When a part and a season are both present, the identifier
  is the one without season and part followed by \<open>_part\<close> and the part number padded
  to two digits; no season suffix is added.
\<close>

theorem generateSeriesId_folder_independent:
  assumes "length seriesName \<ge> 2"
  shows "generateSeriesId seriesName folder1 season part
           = generateSeriesId seriesName folder2 season part
         \<and> generateSeriesId seriesName folder1 (Some s) (Some p)
           = generateSeriesId seriesName folder2 None None
               @ ''_part'' @ padStart 2 CHR ''0'' (toString p)"
proof -
  have "baseId seriesName folder1 = baseId seriesName folder2"
    using assms by (auto simp: baseId_def)
  then show ?thesis
    by (simp add: generateSeriesId_def split: option.splits)
qed

theorem generateSeriesId_folder_independent_witness:
  "length ''Show'' \<ge> 2
   \<and> generateSeriesId ''Show'' ''Show Season 2'' (Some 2) None
       = generateSeriesId ''Show'' ''Show (different folder label)'' (Some 2) None
   \<and> generateSeriesId ''Show'' ''Show Season 2'' (Some 2) (Some 3)
       = generateSeriesId ''Show'' ''Show (different folder label)'' None None
           @ ''_part'' @ padStart 2 CHR ''0'' (toString 3)"
  using generateSeriesId_folder_independent [where seriesName = "''Show''"
      and ?folder1.0 = "''Show Season 2''" and ?folder2.0 = "''Show (different folder label)''"
      and season = "Some 2" and part = None and s = 2 and p = 3]
  by simp

section \<open>Properties of the directory classifier\<close>

lemma scanEntries_foldl:
  "foldl (\<lambda>(lg, results) entry.
              case scanEntry fs rootPath entry of
                (lg', units) \<Rightarrow> (lg @ lg', results @ units)) (lg0, rs0) es
   = (lg0 @ concat (map (\<lambda>x. fst (scanEntry fs rootPath x)) es),
      rs0 @ concat (map (\<lambda>x. snd (scanEntry fs rootPath x)) es))"
  by (induction es arbitrary: lg0 rs0) (auto split: prod.splits)

lemma scanEntries_concat:
  "scanEntries fs rootPath es
   = (concat (map (\<lambda>x. fst (scanEntry fs rootPath x)) es),
      concat (map (\<lambda>x. snd (scanEntry fs rootPath x)) es))"
  unfolding scanEntries_def by (simp add: scanEntries_foldl)

lemma tryEntry_fails_iff:
  "(\<exists>e. snd (tryEntry fs rootPath x) = Inl e) \<longleftrightarrow> entry_unreadable fs (join rootPath x)"
  by (auto simp: tryEntry_def entry_unreadable_def Let_def split: sum.splits prod.splits if_splits)

lemma scanEntry_unreadable:
  assumes "entry_unreadable fs (join rootPath x)"
  shows "snd (scanEntry fs rootPath x) = []"
    and "Warn (''Could not process '' @ join rootPath x @ '':'') \<in> set (fst (scanEntry fs rootPath x))"
proof -
  obtain e where "snd (tryEntry fs rootPath x) = Inl e"
    using assms tryEntry_fails_iff by blast
  then show "snd (scanEntry fs rootPath x) = []"
    and "Warn (''Could not process '' @ join rootPath x @ '':'') \<in> set (fst (scanEntry fs rootPath x))"
    by (auto simp: scanEntry_def split: prod.splits sum.splits)
qed

lemma scanDirectory_fatal_iff:
  "snd (scanDirectory fs rootPath) = Inl e \<longleftrightarrow> readdir fs rootPath = Inl e"
  by (auto simp: scanDirectory_def split: sum.splits prod.splits)

lemma scanDirectory_ok:
  assumes "readdir fs rootPath = Inr es"
  shows "scanDirectory fs rootPath
         = (concat (map (\<lambda>x. fst (scanEntry fs rootPath x)) es),
            Inr (concat (map (\<lambda>x. snd (scanEntry fs rootPath x)) es)))"
  using assms by (simp add: scanDirectory_def scanEntries_concat)


lemma scanFolderEntry_log_mono:
  "set (fst st) \<subseteq> set (fst (scanFolderEntry fs folder fname season st x))"
  by (cases st) (auto simp: scanFolderEntry_def Let_def split: sum.splits prod.splits)

lemma scanFolderEntry_warns:
  "stat fs (join folder x) = Inl e \<Longrightarrow>
   Warn (''Could not stat: '' @ join folder x)
     \<in> set (fst (scanFolderEntry fs folder fname season st x))"
  by (cases st) (auto simp: scanFolderEntry_def Let_def split: sum.splits prod.splits)

lemma foldl_scanFolderEntry_log_mono:
  "set (fst st) \<subseteq> set (fst (foldl (scanFolderEntry fs folder fname season) st es))"
proof (induction es arbitrary: st)
  case Nil
  then show ?case by simp
next
  case (Cons x es)
  have "set (fst st) \<subseteq> set (fst (scanFolderEntry fs folder fname season st x))"
    by (rule scanFolderEntry_log_mono)
  also have "\<dots> \<subseteq> set (fst (foldl (scanFolderEntry fs folder fname season)
                       (scanFolderEntry fs folder fname season st x) es))"
    by (rule Cons.IH)
  finally show ?case by simp
qed

lemma foldl_scanFolderEntry_warns:
  "x \<in> set es \<Longrightarrow> stat fs (join folder x) = Inl e \<Longrightarrow>
   Warn (''Could not stat: '' @ join folder x)
     \<in> set (fst (foldl (scanFolderEntry fs folder fname season) st es))"
proof (induction es arbitrary: st)
  case Nil
  then show ?case by simp
next
  case (Cons y es)
  show ?case
  proof (cases "x = y")
    case True
    then have "Warn (''Could not stat: '' @ join folder x)
                 \<in> set (fst (scanFolderEntry fs folder fname season st y))"
      using Cons.prems(2) scanFolderEntry_warns by blast
    then show ?thesis
      using foldl_scanFolderEntry_log_mono by fastforce
  next
    case False
    then have "x \<in> set es" using Cons.prems(1) by simp
    then show ?thesis using Cons.IH Cons.prems(2) by simp
  qed
qed

lemma matchSubtitles_filePath: "filePath (matchSubtitles subs v) = filePath v"
  by (simp add: matchSubtitles_def Let_def)

lemma scanFolderForVideos_warns:
  assumes "readdir fs folder = Inr es" and "x \<in> set es" and "stat fs (join folder x) = Inl e"
  shows "Warn (''Could not stat: '' @ join folder x) \<in> set (fst (scanFolderForVideos fs folder season))"
proof -
  let ?season = "case season of Some s \<Rightarrow> Some s | None \<Rightarrow> extractSeasonNumber (path_component folder)"
  let ?st = "foldl (scanFolderEntry fs folder (path_component folder) ?season) ([], [], \<lambda>_. []) es"
  obtain lg vs subs where st: "?st = (lg, vs, subs)" by (cases ?st) auto
  have "Warn (''Could not stat: '' @ join folder x) \<in> set (fst ?st)"
    using assms(2,3) by (rule foldl_scanFolderEntry_warns)
  then have "Warn (''Could not stat: '' @ join folder x) \<in> set lg"
    using st by simp
  moreover have "set lg \<subseteq> set (fst (scanFolderForVideos fs folder season))"
    using assms(1) st by (auto simp: scanFolderForVideos_def Let_def split: prod.splits)
  ultimately show ?thesis by blast
qed

lemma scanFolderForVideos_unreadable:
  "readdir fs folder = Inl e \<Longrightarrow>
   scanFolderForVideos fs folder season = ([Err (''Error scanning folder '' @ folder @ '':'')], [])"
  by (simp add: scanFolderForVideos_def Let_def)


lemma in_concat_map: "p \<in> set ps \<Longrightarrow> x \<in> set (f p) \<Longrightarrow> x \<in> set (concat (map f ps))"
  by auto

lemma scanRoot_foldl:
  "foldl (scanRoot fs) (lg0, rs0) ps
   = (lg0 @ concat (map (\<lambda>p. case scanDirectory fs p of
                                 (lg, Inl e) \<Rightarrow> lg @ [Err (''Error scanning '' @ p @ '':'')]
                               | (lg, Inr rs) \<Rightarrow> lg) ps),
      rs0 @ concat (map (\<lambda>p. case snd (scanDirectory fs p) of Inl e \<Rightarrow> [] | Inr rs \<Rightarrow> rs) ps))"
  by (induction ps arbitrary: lg0 rs0) (auto simp: scanRoot_def split: prod.splits sum.splits)

lemma video_entries_Cons:
  "video_entries fs folder (y # es) = video_entries fs folder [y] @ video_entries fs folder es"
  by (simp add: video_entries_def)

lemma scanFolderEntry_videos:
  "map filePath (fst (snd (scanFolderEntry fs folder fname season st y)))
   = map filePath (fst (snd st)) @ map (join folder) (video_entries fs folder [y])"
  by (cases st)
     (auto simp: scanFolderEntry_def video_entries_def Let_def split: sum.splits prod.splits)

lemma foldl_scanFolderEntry_videos:
  "map filePath (fst (snd (foldl (scanFolderEntry fs folder fname season) st es)))
   = map filePath (fst (snd st)) @ map (join folder) (video_entries fs folder es)"
proof (induction es arbitrary: st)
  case Nil
  show ?case by (simp add: video_entries_def)
next
  case (Cons y es)
  have "map filePath (fst (snd (foldl (scanFolderEntry fs folder fname season) st (y # es))))
        = map filePath (fst (snd (scanFolderEntry fs folder fname season st y)))
          @ map (join folder) (video_entries fs folder es)"
    by (simp add: Cons.IH)
  also have "\<dots> = map filePath (fst (snd st))
                   @ map (join folder) (video_entries fs folder [y])
                   @ map (join folder) (video_entries fs folder es)"
    by (simp add: scanFolderEntry_videos)
  also have "\<dots> = map filePath (fst (snd st))
                   @ map (join folder) (video_entries fs folder (y # es))"
    by (subst (2) video_entries_Cons) simp
  finally show ?case .
qed

lemma uniqueVideos_paths:
  "filePath ` set (snd (uniqueVideos seen vs)) = filePath ` set vs - set seen"
  by (induction seen vs rule: uniqueVideos.induct) (auto simp: case_prod_beta)

lemma scanFolderForVideos_video_paths:
  assumes "readdir fs folder = Inr es"
  shows "filePath ` set (snd (scanFolderForVideos fs folder season))
         = join folder ` set (video_entries fs folder es)"
proof -
  let ?season = "case season of Some s \<Rightarrow> Some s | None \<Rightarrow> extractSeasonNumber (path_component folder)"
  let ?st = "foldl (scanFolderEntry fs folder (path_component folder) ?season) ([], [], \<lambda>_. []) es"
  obtain lg vs subs where st: "?st = (lg, vs, subs)" by (cases ?st) auto
  have "snd (scanFolderForVideos fs folder season)
        = snd (uniqueVideos [] (map (matchSubtitles subs) vs))"
    using assms st by (simp add: scanFolderForVideos_def Let_def split: prod.splits)
  then have "filePath ` set (snd (scanFolderForVideos fs folder season))
        = filePath ` set (map (matchSubtitles subs) vs)"
    by (simp add: uniqueVideos_paths)
  also have "\<dots> = set (map filePath vs)"
    by (simp add: image_image matchSubtitles_filePath)
  also have "map filePath vs = map (join folder) (video_entries fs folder es)"
    using foldl_scanFolderEntry_videos
            [of fs folder "path_component folder" ?season "([], [], \<lambda>_. [])" es] st
    by simp
  finally show ?thesis by simp
qed

lemma scanFolderForVideos_empty_iff:
  assumes "readdir fs folder = Inr es"
  shows "snd (scanFolderForVideos fs folder season) = [] \<longleftrightarrow> video_entries fs folder es = []"
proof -
  have "snd (scanFolderForVideos fs folder season) = []
        \<longleftrightarrow> filePath ` set (snd (scanFolderForVideos fs folder season)) = {}"
    by simp
  also have "\<dots> \<longleftrightarrow> join folder ` set (video_entries fs folder es) = {}"
    by (simp only: scanFolderForVideos_video_paths [OF assms])
  also have "\<dots> \<longleftrightarrow> video_entries fs folder es = []"
    by simp
  finally show ?thesis .
qed

lemma set_insert_sorted: "set (insert_sorted cmp x ys) = insert x (set ys)"
  by (induction ys) auto

lemma set_foldl_insert_sorted:
  "set (foldl (\<lambda>acc x. insert_sorted cmp x acc) acc xs) = set acc \<union> set xs"
  by (induction xs arbitrary: acc) (auto simp: set_insert_sorted)

lemma set_sort_by: "set (sort_by cmp xs) = set xs"
  by (simp add: sort_by_def set_foldl_insert_sorted)

lemma seriesMedia_fields:
  "media_folderPath (seriesMedia name path vs) = path"
  "set (files (seriesMedia name path vs)) = set vs"
  by (simp_all add: seriesMedia_def Let_def set_sort_by)

lemma folder_units_unreadable:
  "readdir fs folder = Inl e \<Longrightarrow> folder_units fs name folder season = []"
  by (simp add: folder_units_def scanFolderForVideos_unreadable)

lemma folder_units_cases:
  "folder_units fs name folder season
   = (if snd (scanFolderForVideos fs folder season) = [] then []
      else [seriesMedia name folder (snd (scanFolderForVideos fs folder season))])"
  by (simp add: folder_units_def split: list.splits)

lemma folder_units_empty_iff:
  assumes "readdir fs folder = Inr es"
  shows "folder_units fs name folder season = [] \<longleftrightarrow> video_entries fs folder es = []"
  using scanFolderForVideos_empty_iff [OF assms, of season]
  by (simp add: folder_units_cases)

lemma folder_units_files:
  assumes "readdir fs folder = Inr es" and "u \<in> set (folder_units fs name folder season)"
  shows "media_folderPath u = folder"
    and "filePath ` set (files u) = join folder ` set (video_entries fs folder es)"
proof -
  have u: "u = seriesMedia name folder (snd (scanFolderForVideos fs folder season))"
    using assms(2) by (simp add: folder_units_cases split: if_splits)
  show "media_folderPath u = folder"
    by (simp add: u seriesMedia_fields)
  show "filePath ` set (files u) = join folder ` set (video_entries fs folder es)"
    by (simp add: u seriesMedia_fields scanFolderForVideos_video_paths [OF assms(1)])
qed

lemma scanCategoryDir_foldl:
  "foldl (scanCategoryDir fs p) (lg0, rs0) ds
   = (lg0 @ concat (map (\<lambda>d. fst (scanFolderForVideos fs (join p d) (extractSeasonNumber d))) ds),
      rs0 @ concat (map (\<lambda>d. folder_units fs d (join p d) (extractSeasonNumber d)) ds))"
  by (induction ds arbitrary: lg0 rs0)
     (auto simp: scanCategoryDir_def folder_units_cases Let_def split: prod.splits)

lemma subDirsOf_sub_folders: "subDirsOf fs p subs = sub_folders fs p subs"
  unfolding subDirsOf_def sub_folders_def
  by (rule filter_cong) (auto split: sum.splits)

lemma tryEntry_directory:
  assumes st: "stat fs (join rootPath x) = Inr Directory"
    and rd: "readdir fs (join rootPath x) = Inr subs"
  shows "tryEntry fs rootPath x
         = (if sub_folders fs (join rootPath x) subs \<noteq> []
               \<and> video_entries fs (join rootPath x) subs = []
            then (fst (scanFolderForVideos fs (join rootPath x) None)
                    @ concat (map (\<lambda>d. fst (scanFolderForVideos fs (join (join rootPath x) d)
                                              (extractSeasonNumber d)))
                                  (sub_folders fs (join rootPath x) subs)),
                  Inr (concat (map (\<lambda>d. folder_units fs d (join (join rootPath x) d)
                                           (extractSeasonNumber d))
                                   (sub_folders fs (join rootPath x) subs))))
            else (fst (scanFolderForVideos fs (join rootPath x) None),
                  Inr (folder_units fs x (join rootPath x) None)))"
proof -
  obtain lg vs where sf: "scanFolderForVideos fs (join rootPath x) None = (lg, vs)"
    by (cases "scanFolderForVideos fs (join rootPath x) None") auto
  have vs: "vs = [] \<longleftrightarrow> video_entries fs (join rootPath x) subs = []"
    using scanFolderForVideos_empty_iff [OF rd, of None] sf by simp
  have fu: "folder_units fs x (join rootPath x) None
            = (if vs \<noteq> [] then [seriesMedia x (join rootPath x) vs] else [])"
    using sf by (simp add: folder_units_cases)
  show ?thesis
    using vs
    by (simp add: tryEntry_def Let_def st rd sf fu subDirsOf_sub_folders scanCategoryDir_foldl)
qed

lemma scanEntry_units: "snd (scanEntry fs rootPath x) = entry_units fs rootPath x"
proof (cases "stat fs (join rootPath x)")
  case (Inl e)
  then show ?thesis
    by (simp add: scanEntry_def tryEntry_def entry_units_def Let_def)
next
  case (Inr k)
  show ?thesis
  proof (cases "k = Directory")
    case False
    then show ?thesis
      using Inr by (simp add: scanEntry_def tryEntry_def entry_units_def Let_def)
  next
    case True
    then have st: "stat fs (join rootPath x) = Inr Directory" using Inr by simp
    show ?thesis
    proof (cases "readdir fs (join rootPath x)")
      case (Inl e)
      then show ?thesis
        using st
        by (simp add: scanEntry_def tryEntry_def entry_units_def Let_def split: prod.splits)
    next
      case rd: (Inr subs)
      show ?thesis
        by (simp add: scanEntry_def tryEntry_directory [OF st rd] entry_units_def Let_def st rd)
    qed
  qed
qed

lemma scanEntry_log_folder:
  assumes st: "stat fs (join rootPath x) = Inr Directory"
  shows "set (fst (scanFolderForVideos fs (join rootPath x) None))
         \<subseteq> set (fst (scanEntry fs rootPath x))"
proof (cases "readdir fs (join rootPath x)")
  case (Inl e)
  then show ?thesis
    using st by (auto simp: scanEntry_def tryEntry_def Let_def split: prod.splits)
next
  case rd: (Inr subs)
  show ?thesis
    by (auto simp: scanEntry_def tryEntry_directory [OF st rd])
qed

lemma scanEntry_log_category:
  assumes st: "stat fs (join rootPath x) = Inr Directory"
    and rd: "readdir fs (join rootPath x) = Inr subs"
    and nv: "video_entries fs (join rootPath x) subs = []"
    and d: "d \<in> set (sub_folders fs (join rootPath x) subs)"
  shows "set (fst (scanFolderForVideos fs (join (join rootPath x) d) (extractSeasonNumber d)))
         \<subseteq> set (fst (scanEntry fs rootPath x))"
proof -
  have ne: "sub_folders fs (join rootPath x) subs \<noteq> []" using d by auto
  show ?thesis
    using d by (auto simp: scanEntry_def tryEntry_directory [OF st rd] ne nv)
qed

lemma scanDirectory_log:
  assumes "readdir fs rootPath = Inr entries" and "x \<in> set entries"
  shows "set (fst (scanEntry fs rootPath x)) \<subseteq> set (fst (scanDirectory fs rootPath))"
  using assms(2) by (auto simp: scanDirectory_ok [OF assms(1)])

lemma scanned_folders_logged:
  assumes rd: "readdir fs rootPath = Inr entries"
    and q: "folder \<in> set (scanned_folders fs rootPath entries)"
  shows "\<exists>season. set (fst (scanFolderForVideos fs folder season))
                    \<subseteq> set (fst (scanDirectory fs rootPath))"
proof -
  from q obtain x where x: "x \<in> set entries"
    and m: "folder \<in> set (if stat fs (join rootPath x) = Inr Directory
                           then join rootPath x #
                                (case readdir fs (join rootPath x) of
                                   Inl err \<Rightarrow> []
                                 | Inr subs \<Rightarrow>
                                     if video_entries fs (join rootPath x) subs = []
                                     then map (join (join rootPath x))
                                              (sub_folders fs (join rootPath x) subs)
                                     else [])
                           else [])"
    by (auto simp: scanned_folders_def Let_def)
  have st: "stat fs (join rootPath x) = Inr Directory"
    using m by (auto split: if_splits)
  have lg: "set (fst (scanEntry fs rootPath x)) \<subseteq> set (fst (scanDirectory fs rootPath))"
    using rd x by (rule scanDirectory_log)
  show ?thesis
  proof (cases "folder = join rootPath x")
    case True
    then have "set (fst (scanFolderForVideos fs folder None))
               \<subseteq> set (fst (scanEntry fs rootPath x))"
      using scanEntry_log_folder [OF st] by simp
    then show ?thesis using lg by blast
  next
    case False
    show ?thesis
    proof (cases "readdir fs (join rootPath x)")
      case (Inl e)
      then show ?thesis using m st False by simp
    next
      case rd': (Inr subs)
      have nv: "video_entries fs (join rootPath x) subs = []"
        using m st False rd' by (auto split: if_splits)
      obtain d where d: "d \<in> set (sub_folders fs (join rootPath x) subs)"
        and f: "folder = join (join rootPath x) d"
        using m st False rd' nv by auto
      have "set (fst (scanFolderForVideos fs folder (extractSeasonNumber d)))
            \<subseteq> set (fst (scanEntry fs rootPath x))"
        unfolding f using st rd' nv d by (rule scanEntry_log_category)
      then show ?thesis using lg by blast
    qed
  qed
qed

text \<open>
  C9. A scan of a root fails exactly when the root itself cannot be enumerated. When
  the root can be enumerated:
  \<^item> the units of the scan are the units of its entries, one entry after the other, each
    entry read on its own (\<open>entry_units\<close>); so a category folder gives the units of its
    sub-folders, one after the other;
  \<^item> an entry that cannot be stat-ed, or a directory entry that cannot be enumerated,
    gives no unit, and the log of the scan has the warning \<open>Could not process\<close> for it;
  \<^item> for every folder whose files the scan looks at (\<open>scanned_folders\<close>), the log of
    the scan has the error \<open>Error scanning folder\<close> when the folder cannot be
    enumerated, and the warning \<open>Could not stat\<close> for each of its entries that cannot be
    stat-ed.

  Whatever the folder, one that cannot be enumerated gives no unit; one that can gives a
  unit exactly when it holds an entry that can be stat-ed and is a video file, and the
  files of that unit are exactly these entries: an entry that cannot be stat-ed is left
  out and the others are kept.
\<close>

theorem scanDirectory_error_policy:
  "(snd (scanDirectory fs rootPath) = Inl e \<longleftrightarrow> readdir fs rootPath = Inl e)
   \<and> (\<forall>entries. readdir fs rootPath = Inr entries \<longrightarrow>
         snd (scanDirectory fs rootPath) = Inr (concat (map (entry_units fs rootPath) entries))
         \<and> (\<forall>x \<in> set entries. entry_unreadable fs (join rootPath x) \<longrightarrow>
               entry_units fs rootPath x = []
               \<and> Warn (''Could not process '' @ join rootPath x @ '':'')
                   \<in> set (fst (scanDirectory fs rootPath)))
         \<and> (\<forall>folder \<in> set (scanned_folders fs rootPath entries).
               (\<forall>e'. readdir fs folder = Inl e' \<longrightarrow>
                     Err (''Error scanning folder '' @ folder @ '':'')
                       \<in> set (fst (scanDirectory fs rootPath)))
               \<and> (\<forall>fnames. readdir fs folder = Inr fnames \<longrightarrow>
                     (\<forall>f \<in> set fnames. (\<exists>e'. stat fs (join folder f) = Inl e') \<longrightarrow>
                           Warn (''Could not stat: '' @ join folder f)
                             \<in> set (fst (scanDirectory fs rootPath))))))
   \<and> (\<forall>name folder season.
         (\<forall>e'. readdir fs folder = Inl e' \<longrightarrow> folder_units fs name folder season = [])
         \<and> (\<forall>fnames. readdir fs folder = Inr fnames \<longrightarrow>
               (folder_units fs name folder season = []
                  \<longleftrightarrow> video_entries fs folder fnames = [])
               \<and> (\<forall>u \<in> set (folder_units fs name folder season).
                     media_folderPath u = folder
                     \<and> filePath ` set (files u)
                         = join folder ` set (video_entries fs folder fnames))))"
proof (intro conjI allI impI ballI)
  show "snd (scanDirectory fs rootPath) = Inl e \<longleftrightarrow> readdir fs rootPath = Inl e"
    by (rule scanDirectory_fatal_iff)
next
  fix entries
  assume rd: "readdir fs rootPath = Inr entries"
  have "(\<lambda>x. snd (scanEntry fs rootPath x)) = entry_units fs rootPath"
    by (rule ext) (rule scanEntry_units)
  then show "snd (scanDirectory fs rootPath)
             = Inr (concat (map (entry_units fs rootPath) entries))"
    by (simp add: scanDirectory_ok [OF rd])
next
  fix entries x
  assume "entry_unreadable fs (join rootPath x)"
  then have "snd (scanEntry fs rootPath x) = []"
    by (rule scanEntry_unreadable(1))
  then show "entry_units fs rootPath x = []"
    by (simp add: scanEntry_units)
next
  fix entries x
  assume rd: "readdir fs rootPath = Inr entries" and x: "x \<in> set entries"
    and un: "entry_unreadable fs (join rootPath x)"
  have "Warn (''Could not process '' @ join rootPath x @ '':'')
          \<in> set (fst (scanEntry fs rootPath x))"
    using un by (rule scanEntry_unreadable(2))
  then show "Warn (''Could not process '' @ join rootPath x @ '':'')
               \<in> set (fst (scanDirectory fs rootPath))"
    using scanDirectory_log [OF rd x] by blast
next
  fix entries folder e'
  assume rd: "readdir fs rootPath = Inr entries"
    and q: "folder \<in> set (scanned_folders fs rootPath entries)"
    and fail: "readdir fs folder = Inl e'"
  obtain season where lg: "set (fst (scanFolderForVideos fs folder season))
                           \<subseteq> set (fst (scanDirectory fs rootPath))"
    using scanned_folders_logged [OF rd q] by blast
  have "Err (''Error scanning folder '' @ folder @ '':'')
          \<in> set (fst (scanFolderForVideos fs folder season))"
    by (simp add: scanFolderForVideos_unreadable [OF fail])
  then show "Err (''Error scanning folder '' @ folder @ '':'')
               \<in> set (fst (scanDirectory fs rootPath))"
    using lg by blast
next
  fix entries folder fnames f
  assume rd: "readdir fs rootPath = Inr entries"
    and q: "folder \<in> set (scanned_folders fs rootPath entries)"
    and rf: "readdir fs folder = Inr fnames" and f: "f \<in> set fnames"
    and fail: "\<exists>e'. stat fs (join folder f) = Inl e'"
  obtain season where lg: "set (fst (scanFolderForVideos fs folder season))
                           \<subseteq> set (fst (scanDirectory fs rootPath))"
    using scanned_folders_logged [OF rd q] by blast
  have "Warn (''Could not stat: '' @ join folder f)
          \<in> set (fst (scanFolderForVideos fs folder season))"
    using rf f fail scanFolderForVideos_warns by blast
  then show "Warn (''Could not stat: '' @ join folder f)
               \<in> set (fst (scanDirectory fs rootPath))"
    using lg by blast
next
  fix name folder season e'
  assume "readdir fs folder = Inl e'"
  then show "folder_units fs name folder season = []"
    by (rule folder_units_unreadable)
next
  fix name folder season fnames
  assume "readdir fs folder = Inr fnames"
  then show "folder_units fs name folder season = [] \<longleftrightarrow> video_entries fs folder fnames = []"
    by (rule folder_units_empty_iff)
next
  fix name folder season fnames u
  assume "readdir fs folder = Inr fnames" "u \<in> set (folder_units fs name folder season)"
  then show "media_folderPath u = folder"
    by (rule folder_units_files(1))
next
  fix name folder season fnames u
  assume "readdir fs folder = Inr fnames" "u \<in> set (folder_units fs name folder season)"
  then show "filePath ` set (files u) = join folder ` set (video_entries fs folder fnames)"
    by (rule folder_units_files(2))
qed

theorem scanDirectory_error_policy_witness:
  "readdir example_library ''/lib'' = Inr [''broken'', ''86'', ''Series'']
   \<and> snd (scanDirectory example_library ''/lib'')
       = Inr (entry_units example_library ''/lib'' ''broken''
              @ entry_units example_library ''/lib'' ''86''
              @ entry_units example_library ''/lib'' ''Series'')
   \<and> entry_unreadable example_library (join ''/lib'' ''broken'')
   \<and> entry_units example_library ''/lib'' ''broken'' = []
   \<and> Warn ''Could not process /lib/broken:'' \<in> set (fst (scanDirectory example_library ''/lib''))
   \<and> scanned_folders example_library ''/lib'' [''broken'', ''86'', ''Series'']
       = [''/lib/86'', ''/lib/Series'', ''/lib/Series/locked'', ''/lib/Series/Show'']
   \<and> readdir example_library ''/lib/Series/locked'' = Inl (FsError ''EACCES'')
   \<and> Err ''Error scanning folder /lib/Series/locked:''
       \<in> set (fst (scanDirectory example_library ''/lib''))
   \<and> folder_units example_library ''locked'' ''/lib/Series/locked''
        (extractSeasonNumber ''locked'') = []
   \<and> stat example_library ''/lib/86/gone.mkv'' = Inl (FsError ''EACCES'')
   \<and> Warn ''Could not stat: /lib/86/gone.mkv'' \<in> set (fst (scanDirectory example_library ''/lib''))
   \<and> stat example_library ''/lib/Series/Show/lost.mkv'' = Inl (FsError ''EACCES'')
   \<and> Warn ''Could not stat: /lib/Series/Show/lost.mkv''
       \<in> set (fst (scanDirectory example_library ''/lib''))
   \<and> entry_units example_library ''/lib'' ''86'' = folder_units example_library ''86'' ''/lib/86'' None
   \<and> folder_units example_library ''86'' ''/lib/86'' None \<noteq> []
   \<and> media_folderPath (hd (folder_units example_library ''86'' ''/lib/86'' None)) = ''/lib/86''
   \<and> filePath ` set (files (hd (folder_units example_library ''86'' ''/lib/86'' None)))
       = {''/lib/86/86 - 02.mkv'', ''/lib/86/86 - 01.mkv''}
   \<and> entry_units example_library ''/lib'' ''Series''
       = folder_units example_library ''locked'' ''/lib/Series/locked''
           (extractSeasonNumber ''locked'')
         @ folder_units example_library ''Show'' ''/lib/Series/Show''
             (extractSeasonNumber ''Show'')
   \<and> folder_units example_library ''Show'' ''/lib/Series/Show''
        (extractSeasonNumber ''Show'') \<noteq> []
   \<and> filePath ` set (files (hd (folder_units example_library ''Show'' ''/lib/Series/Show''
                                   (extractSeasonNumber ''Show''))))
       = {''/lib/Series/Show/Show 01.mkv''}
   \<and> snd (scanDirectory example_library ''/nowhere'') = Inl (FsError ''EACCES'')"
proof -
  let ?L = example_library
  let ?es = "[''broken'', ''86'', ''Series'']"
  let ?f86 = "[''86 - 02.mkv'', ''gone.mkv'', ''86 - 01.mkv'']"
  let ?fShow = "[''lost.mkv'', ''Show 01.mkv'']"
  have rd: "readdir ?L ''/lib'' = Inr ?es"
    by (simp add: example_library_def)
  have rd86: "readdir ?L ''/lib/86'' = Inr ?f86"
    by (simp add: example_library_def)
  have rdSeries: "readdir ?L ''/lib/Series'' = Inr [''locked'', ''Show'']"
    by (simp add: example_library_def)
  have rdLocked: "readdir ?L ''/lib/Series/locked'' = Inl (FsError ''EACCES'')"
    by (simp add: example_library_def)
  have rdShow: "readdir ?L ''/lib/Series/Show'' = Inr ?fShow"
    by (simp add: example_library_def)
  have rdNowhere: "readdir ?L ''/nowhere'' = Inl (FsError ''EACCES'')"
    by (simp add: example_library_def)
  have st86: "stat ?L ''/lib/86'' = Inr Directory"
    and stSeries: "stat ?L ''/lib/Series'' = Inr Directory"
    and stGone: "stat ?L ''/lib/86/gone.mkv'' = Inl (FsError ''EACCES'')"
    and stLost: "stat ?L ''/lib/Series/Show/lost.mkv'' = Inl (FsError ''EACCES'')"
    by (simp_all add: example_library_def)
  have j: "join ''/lib'' ''broken'' = ''/lib/broken''" "join ''/lib'' ''86'' = ''/lib/86''"
    "join ''/lib'' ''Series'' = ''/lib/Series''"
    "join ''/lib/Series'' ''locked'' = ''/lib/Series/locked''"
    "join ''/lib/Series'' ''Show'' = ''/lib/Series/Show''"
    "join ''/lib/86'' ''gone.mkv'' = ''/lib/86/gone.mkv''"
    "join ''/lib/Series/Show'' ''lost.mkv'' = ''/lib/Series/Show/lost.mkv''"
    by (simp_all add: join_def)
  have un: "entry_unreadable ?L (join ''/lib'' ''broken'')"
    by (simp add: entry_unreadable_def example_library_def join_def)
  have sf: "scanned_folders ?L ''/lib'' ?es
            = [''/lib/86'', ''/lib/Series'', ''/lib/Series/locked'', ''/lib/Series/Show'']"
    by code_simp
  have ve86: "video_entries ?L ''/lib/86'' ?f86 = [''86 - 02.mkv'', ''86 - 01.mkv'']"
    by code_simp
  have veSeries: "video_entries ?L ''/lib/Series'' [''locked'', ''Show''] = []"
    by code_simp
  have veShow: "video_entries ?L ''/lib/Series/Show'' ?fShow = [''Show 01.mkv'']"
    by code_simp
  have sfSeries: "sub_folders ?L ''/lib/Series'' [''locked'', ''Show''] = [''locked'', ''Show'']"
    by code_simp
  have eu86: "entry_units ?L ''/lib'' ''86'' = folder_units ?L ''86'' ''/lib/86'' None"
    by (simp add: entry_units_def j st86 rd86 ve86)
  have euSeries: "entry_units ?L ''/lib'' ''Series''
       = folder_units ?L ''locked'' ''/lib/Series/locked'' (extractSeasonNumber ''locked'')
         @ folder_units ?L ''Show'' ''/lib/Series/Show'' (extractSeasonNumber ''Show'')"
    by (simp add: entry_units_def j stSeries rdSeries veSeries sfSeries)
  note T = scanDirectory_error_policy [of ?L "''/lib''" "FsError ''EACCES''"]
  note T' = scanDirectory_error_policy [of ?L "''/nowhere''" "FsError ''EACCES''"]
  from T rd have res: "snd (scanDirectory ?L ''/lib'')
       = Inr (entry_units ?L ''/lib'' ''broken'' @ entry_units ?L ''/lib'' ''86''
              @ entry_units ?L ''/lib'' ''Series'')"
    by simp
  have in1: "''broken'' \<in> set ?es" by simp
  from T rd un in1 have b: "entry_units ?L ''/lib'' ''broken'' = []"
    and w1: "Warn (''Could not process '' @ join ''/lib'' ''broken'' @ '':'')
               \<in> set (fst (scanDirectory ?L ''/lib''))"
    by blast+
  have q1: "''/lib/Series/locked'' \<in> set (scanned_folders ?L ''/lib'' ?es)"
    and q2: "''/lib/86'' \<in> set (scanned_folders ?L ''/lib'' ?es)"
    and q3: "''/lib/Series/Show'' \<in> set (scanned_folders ?L ''/lib'' ?es)"
    by (simp_all add: sf)
  from T rd q1 rdLocked have e1: "Err (''Error scanning folder '' @ ''/lib/Series/locked'' @ '':'')
                   \<in> set (fst (scanDirectory ?L ''/lib''))"
    by blast
  have g: "''gone.mkv'' \<in> set ?f86" "\<exists>e'. stat ?L (join ''/lib/86'' ''gone.mkv'') = Inl e'"
    by (simp_all add: j stGone)
  from T rd q2 rd86 g have w2: "Warn (''Could not stat: '' @ join ''/lib/86'' ''gone.mkv'')
                   \<in> set (fst (scanDirectory ?L ''/lib''))"
    by blast
  have l: "''lost.mkv'' \<in> set ?fShow"
    "\<exists>e'. stat ?L (join ''/lib/Series/Show'' ''lost.mkv'') = Inl e'"
    by (simp_all add: j stLost)
  from T rd q3 rdShow l have w3: "Warn (''Could not stat: '' @ join ''/lib/Series/Show'' ''lost.mkv'')
                   \<in> set (fst (scanDirectory ?L ''/lib''))"
    by blast
  from T rdLocked have locked: "folder_units ?L ''locked'' ''/lib/Series/locked''
                                  (extractSeasonNumber ''locked'') = []"
    by blast
  from T rd86 have ne86: "folder_units ?L ''86'' ''/lib/86'' None = []
                          \<longleftrightarrow> video_entries ?L ''/lib/86'' ?f86 = []"
    by blast
  then have ne86': "folder_units ?L ''86'' ''/lib/86'' None \<noteq> []"
    by (simp add: ve86)
  then have h86: "hd (folder_units ?L ''86'' ''/lib/86'' None)
                  \<in> set (folder_units ?L ''86'' ''/lib/86'' None)"
    by simp
  from T rd86 h86 have p86: "media_folderPath (hd (folder_units ?L ''86'' ''/lib/86'' None))
                             = ''/lib/86''"
    and f86: "filePath ` set (files (hd (folder_units ?L ''86'' ''/lib/86'' None)))
              = join ''/lib/86'' ` set (video_entries ?L ''/lib/86'' ?f86)"
    by blast+
  from T rdShow have neShow: "folder_units ?L ''Show'' ''/lib/Series/Show''
                                 (extractSeasonNumber ''Show'') = []
                          \<longleftrightarrow> video_entries ?L ''/lib/Series/Show'' ?fShow = []"
    by blast
  then have neShow': "folder_units ?L ''Show'' ''/lib/Series/Show''
                        (extractSeasonNumber ''Show'') \<noteq> []"
    by (simp add: veShow)
  then have hShow: "hd (folder_units ?L ''Show'' ''/lib/Series/Show'' (extractSeasonNumber ''Show''))
                  \<in> set (folder_units ?L ''Show'' ''/lib/Series/Show''
                            (extractSeasonNumber ''Show''))"
    by simp
  from T rdShow hShow
  have fShow: "filePath ` set (files (hd (folder_units ?L ''Show'' ''/lib/Series/Show''
                                          (extractSeasonNumber ''Show''))))
              = join ''/lib/Series/Show'' ` set (video_entries ?L ''/lib/Series/Show'' ?fShow)"
    by blast
  from T' rdNowhere have fatal: "snd (scanDirectory ?L ''/nowhere'') = Inl (FsError ''EACCES'')"
    by blast
  have f86': "filePath ` set (files (hd (folder_units ?L ''86'' ''/lib/86'' None)))
              = {''/lib/86/86 - 02.mkv'', ''/lib/86/86 - 01.mkv''}"
    by (simp add: f86 ve86 join_def)
  have fShow': "filePath ` set (files (hd (folder_units ?L ''Show'' ''/lib/Series/Show''
                                          (extractSeasonNumber ''Show''))))
              = {''/lib/Series/Show/Show 01.mkv''}"
    by (simp add: fShow veShow join_def)
  have w1': "Warn ''Could not process /lib/broken:'' \<in> set (fst (scanDirectory ?L ''/lib''))"
    using w1 by (simp add: join_def)
  have e1': "Err ''Error scanning folder /lib/Series/locked:''
               \<in> set (fst (scanDirectory ?L ''/lib''))"
    using e1 by simp
  have w2': "Warn ''Could not stat: /lib/86/gone.mkv'' \<in> set (fst (scanDirectory ?L ''/lib''))"
    using w2 by (simp add: join_def)
  have w3': "Warn ''Could not stat: /lib/Series/Show/lost.mkv''
               \<in> set (fst (scanDirectory ?L ''/lib''))"
    using w3 by (simp add: join_def)
  show ?thesis
    by (intro conjI rd res un b w1' sf rdLocked e1' locked stGone w2' stLost w3' eu86 ne86' p86
          f86' euSeries neShow' fShow' fatal)
qed

text \<open>
  C10. \<open>scanMultipleFolders\<close> always returns: its result is the concatenation, in the
  order of the roots, of the units of every root whose scan succeeded, and a root whose
  scan failed leaves a logged error and nothing else.
\<close>

theorem scanMultipleFolders_never_throws:
  "snd (scanMultipleFolders fs folderPaths)
     = Inr (concat (map (\<lambda>p. case snd (scanDirectory fs p) of Inl e \<Rightarrow> [] | Inr rs \<Rightarrow> rs)
                        folderPaths))
   \<and> (\<forall>p \<in> set folderPaths. \<forall>e. snd (scanDirectory fs p) = Inl e \<longrightarrow>
         Err (''Error scanning '' @ p @ '':'') \<in> set (fst (scanMultipleFolders fs folderPaths)))"
proof (intro conjI ballI allI impI)
  show "snd (scanMultipleFolders fs folderPaths)
     = Inr (concat (map (\<lambda>p. case snd (scanDirectory fs p) of Inl e \<Rightarrow> [] | Inr rs \<Rightarrow> rs)
                        folderPaths))"
    by (simp add: scanMultipleFolders_def scanRoot_foldl)
next
  fix p e
  assume p: "p \<in> set folderPaths" and fail: "snd (scanDirectory fs p) = Inl e"
  define f where "f = (\<lambda>p. case scanDirectory fs p of
                                 (lg, Inl e) \<Rightarrow> lg @ [Err (''Error scanning '' @ p @ '':'')]
                               | (lg, Inr rs) \<Rightarrow> lg)"
  have "Err (''Error scanning '' @ p @ '':'') \<in> set (f p)"
    unfolding f_def using fail by (cases "scanDirectory fs p") simp
  with p have "Err (''Error scanning '' @ p @ '':'') \<in> set (concat (map f folderPaths))"
    by (rule in_concat_map)
  then show "Err (''Error scanning '' @ p @ '':'') \<in> set (fst (scanMultipleFolders fs folderPaths))"
    by (simp add: scanMultipleFolders_def scanRoot_foldl f_def)
qed

theorem scanMultipleFolders_never_throws_witness:
  "snd (scanDirectory example_fs ''/nowhere'') = Inl (FsError ''ENOENT'')
   \<and> snd (scanMultipleFolders example_fs [''/nowhere'', ''/lib''])
       = Inr (concat (map (\<lambda>p. case snd (scanDirectory example_fs p) of
                                   Inl e \<Rightarrow> [] | Inr rs \<Rightarrow> rs) [''/nowhere'', ''/lib'']))
   \<and> Err (''Error scanning '' @ ''/nowhere'' @ '':'')
       \<in> set (fst (scanMultipleFolders example_fs [''/nowhere'', ''/lib'']))"
proof -
  have fail: "snd (scanDirectory example_fs ''/nowhere'') = Inl (FsError ''ENOENT'')"
    by (simp add: scanDirectory_def example_fs_def)
  have mem: "''/nowhere'' \<in> set [''/nowhere'', ''/lib'']" by simp
  note T = scanMultipleFolders_never_throws [of example_fs "[''/nowhere'', ''/lib'']"]
  from T fail mem show ?thesis by blast
qed


section \<open>Properties of the metadata reconciliation\<close>


lemma cleanStore_Some:
  "cleanStore m k = Some r \<longleftrightarrow> m k = Some r \<and> length (fileEpisodesOf r) > 0"
  by (auto simp: cleanStore_def split: option.splits)

lemma cleanStore_idem: "cleanStore (cleanStore m) = cleanStore m"
  by (rule ext) (simp add: cleanStore_def split: option.splits)

text \<open>
  C1. When the handler returns, the store it has saved holds no entry without file
  episodes: every saved entry has at least one, and an entry of the merged store (the
  existing entries overwritten by the ones built in this pass) whose list is empty or
  missing is not saved.
\<close>

theorem saved_store_has_files:
  assumes "scanAndFetchMetadata env folderPath = Inr saved"
  shows "(\<forall>k r. saved k = Some r \<longrightarrow> length (fileEpisodesOf r) \<ge> 1)
         \<and> (\<forall>scannedMedia k r.
               snd (scanFolder (env_fs env) folderPath) = Inr scannedMedia
               \<longrightarrow> mergedMetadata env scannedMedia k = Some r
               \<longrightarrow> fileEpisodesOf r = []
               \<longrightarrow> saved k = None)"
proof -
  obtain scanned where sc: "snd (scanFolder (env_fs env) folderPath) = Inr scanned"
    and sv: "saveMetadata env (cleanStore (mergedMetadata env scanned)) = Inr saved"
    using assms by (auto simp: scanAndFetchMetadata_def split: sum.splits)
  from sv have saved: "saved = cleanStore (mergedMetadata env scanned)"
    by (auto simp: saveMetadata_def cleanStore_idem split: option.splits)
  show ?thesis
  proof (intro conjI allI impI)
    fix k r
    assume "saved k = Some r"
    then show "length (fileEpisodesOf r) \<ge> 1"
      using saved by (cases "fileEpisodesOf r") (auto simp: cleanStore_Some)
  next
    fix scannedMedia k r
    assume "snd (scanFolder (env_fs env) folderPath) = Inr scannedMedia"
      and m: "mergedMetadata env scannedMedia k = Some r" and e: "fileEpisodesOf r = []"
    then have "scannedMedia = scanned" using sc by simp
    then show "saved k = None"
      using saved m e by (simp add: cleanStore_def)
  qed
qed


lemma processMedia_other:
  "k \<noteq> media_id media \<Longrightarrow> processMedia env ex new media k = new k"
  by (simp add: processMedia_def Let_def split: cache_decision.splits option.splits)

lemma processMedia_own:
  assumes "files media \<noteq> []"
  shows "processMedia env ex new media (media_id media)
         = Some (case cacheDecision (ex (media_id media)) media of
                   UseCache \<Rightarrow> cacheHitRecord (the (ex (media_id media))) media
                 | DiscardAndFetch \<Rightarrow> freshRecord env media
                 | Fetch \<Rightarrow> freshRecord env media)"
  using assms
  by (simp add: processMedia_def Let_def split: cache_decision.splits option.splits)

lemma freshRecord_fileEpisodes:
  "rec_fileEpisodes (freshRecord env media) = Some (map toFileEpisode (files media))"
  by (simp add: freshRecord_def fetchedRecord_def localRecord_def Let_def
      split: option.splits prod.splits)

theorem saved_store_has_files_witness:
  "scanAndFetchMetadata example_env ''/m''
     = Inr (cleanStore (mergedMetadata example_env [rootMovie ''/m'' ''a.mkv'']))
   \<and> snd (scanFolder (env_fs example_env) ''/m'') = Inr [rootMovie ''/m'' ''a.mkv'']
   \<and> mergedMetadata example_env [rootMovie ''/m'' ''a.mkv''] ''stale'' = Some stale_record
   \<and> fileEpisodesOf stale_record = []
   \<and> cleanStore (mergedMetadata example_env [rootMovie ''/m'' ''a.mkv'']) ''stale'' = None
   \<and> cleanStore (mergedMetadata example_env [rootMovie ''/m'' ''a.mkv'']) ''movie_a''
       = Some (freshRecord example_env (rootMovie ''/m'' ''a.mkv''))
   \<and> length (fileEpisodesOf (freshRecord example_env (rootMovie ''/m'' ''a.mkv''))) \<ge> 1"
proof -
  let ?media = "rootMovie ''/m'' ''a.mkv''"
  let ?saved = "cleanStore (mergedMetadata example_env [?media])"
  have video: "isVideoFile ''a.mkv''"
    by code_simp
  have scan: "snd (scanFolder (env_fs example_env) ''/m'') = Inr [?media]"
    using video
    by (simp add: scanFolder_def scanDirectory_def scanEntries_def scanEntry_def tryEntry_def
        example_env_def movie_fs_def join_def)
  have run: "scanAndFetchMetadata example_env ''/m'' = Inr ?saved"
    using scan
    by (simp add: scanAndFetchMetadata_def saveMetadata_def cleanStore_idem example_env_def)
  have id: "media_id ?media = ''movie_a''"
    by code_simp
  have merged: "mergedMetadata example_env [?media] ''stale'' = Some stale_record"
    using id
    by (simp add: mergedMetadata_def Let_def loadMetadata_def example_env_def map_add_def
        processMedia_other)
  have empty: "fileEpisodesOf stale_record = []"
    by (simp add: fileEpisodesOf_def stale_record_def)
  have fs: "files ?media \<noteq> []"
    by (simp add: rootMovie_def)
  have "loadMetadata example_env ''movie_a'' = None"
    by (simp add: loadMetadata_def example_env_def)
  then have own: "mergedMetadata example_env [?media] ''movie_a''
                  = Some (freshRecord example_env ?media)"
    using processMedia_own [OF fs, of example_env "loadMetadata example_env" Map.empty] id
    by (simp add: mergedMetadata_def Let_def map_add_def cacheDecision_def)
  have "fileEpisodesOf (freshRecord example_env ?media) \<noteq> []"
    using fs by (simp add: fileEpisodesOf_def freshRecord_fileEpisodes)
  with own have kept: "?saved ''movie_a'' = Some (freshRecord example_env ?media)"
    by (simp add: cleanStore_def)
  from saved_store_has_files [OF run] scan merged empty kept
  have "?saved ''stale'' = None"
    and "length (fileEpisodesOf (freshRecord example_env ?media)) \<ge> 1"
    by blast+
  with run scan merged empty kept show ?thesis by blast
qed



subsection \<open>Provider search\<close>

text \<open>
  Where every candidate with an unknown episode count is released, the two loops of
  the source accept what the specification describes.
\<close>

lemma find_filter: "find P (filter Q xs) = find (\<lambda>x. Q x \<and> P x) xs"
  by (induction xs) auto

lemma find_cong_set: "(\<And>x. x \<in> set xs \<Longrightarrow> P x = Q x) \<Longrightarrow> find P xs = find Q xs"
  by (induction xs) auto

lemma acceptedCandidate_agrees_with_spec:
  assumes "\<forall>m \<in> set results. al_episodes m = None \<longrightarrow> isReleased m"
  shows "acceptedCandidate results (Some c) = spec_acceptedCandidate results c"
proof -
  have 1: "find (\<lambda>media. case al_episodes media of None \<Rightarrow> False | Some n \<Rightarrow> n \<ge> c)
             (filter isReleased results)
           = firstValid results (Some c)"
    unfolding firstValid_def find_filter
    by (rule find_cong_set) (auto simp: hasEnoughEpisodes_def split: option.splits)
  have 2: "find (\<lambda>media. al_episodes media = None) (filter isReleased results)
           = firstUnknown results (Some c)"
    unfolding firstUnknown_def find_filter using assms
    by (auto intro!: find_cong_set)
  show ?thesis
    by (simp add: acceptedCandidate_def spec_acceptedCandidate_def 1 2 split: option.splits)
qed

text \<open>
  C2. The claim fails in the fallback loop, which does not look at the release status:
  for the single candidate \<open>unreleased_candidate\<close> (status NOT\_YET\_RELEASED, episode
  count unknown) and a folder with one canonical episode, the source accepts the
  candidate and returns its metadata, where the specification rejects it and finds no
  match.
\<close>

theorem fallback_accepts_unreleased:
  "\<not> isReleased unreleased_candidate
   \<and> acceptedCandidate [unreleased_candidate] (Some 1) = Some unreleased_candidate
   \<and> spec_acceptedCandidate [unreleased_candidate] 1 = None
   \<and> searchAndFetchMetadata example_api ''Show'' None None (Some 1)
       = Some (formatMetadata unreleased_candidate [] None)"
proof -
  have rel: "\<not> isReleased unreleased_candidate"
    by code_simp
  have unk: "al_episodes unreleased_candidate = None"
    by (simp add: unreleased_candidate_def)
  have acc: "acceptedCandidate [unreleased_candidate] (Some 1) = Some unreleased_candidate"
    using rel unk
    by (simp add: acceptedCandidate_def firstValid_def firstUnknown_def)
  have spec: "spec_acceptedCandidate [unreleased_candidate] 1 = None"
    using rel by (simp add: spec_acceptedCandidate_def)
  have "searchAndFetchMetadata example_api ''Show'' None None (Some 1)
       = Some (formatMetadata unreleased_candidate [] None)"
    using acc
    by (simp add: searchAndFetchMetadata_def searchBody_def acceptAndFetch_def
        example_api_def searchQueryFor_def)
  with rel acc spec show ?thesis by blast
qed

subsection \<open>Cache check\<close>

lemma str_includes_iff: "str_includes s t \<longleftrightarrow> substring_of t s"
proof
  assume "str_includes s t"
  then obtain k where k: "take (length t) (drop k s) = t"
    by (auto simp: str_includes_def)
  have "drop k s = take (length t) (drop k s) @ drop (length t) (drop k s)"
    by (rule append_take_drop_id [symmetric])
  then have "drop k s = t @ drop (length t) (drop k s)"
    using k by simp
  then have "s = take k s @ t @ drop (length t) (drop k s)"
    by (metis append_take_drop_id)
  then show "substring_of t s" unfolding substring_of_def by blast
next
  assume "substring_of t s"
  then obtain b a where s: "s = b @ t @ a" unfolding substring_of_def by blast
  then have "take (length t) (drop (length b) s) = t" by simp
  moreover have "length b \<in> set [0..<Suc (length s)]" using s by simp
  ultimately show "str_includes s t" unfolding str_includes_def by blast
qed

text \<open>
  C4, as amended. On a cache hit the entry stored for the unit keeps the description,
  genres, poster, banner (remote and local), episodes, source and episode total of the
  existing entry; its file episodes, folder path, type and identifier come from the
  scan; its title is the existing title, followed by \<open>(Season n)\<close> when the unit has a
  season number \<open>n\<close> and the title shows no season in parentheses.
\<close>

theorem cache_hit_frame:
  assumes "files media \<noteq> []"
    and "existingMetadata (media_id media) = Some ex"
    and "cacheDecision (Some ex) media = UseCache"
    and "rec_title ex = Some t"
  shows "\<exists>r. processMedia env existingMetadata newMetadata media (media_id media) = Some r
          \<and> rec_description r = rec_description ex
          \<and> rec_genres r = rec_genres ex
          \<and> rec_poster r = rec_poster ex
          \<and> rec_posterLocal r = rec_posterLocal ex
          \<and> rec_banner r = rec_banner ex
          \<and> rec_bannerLocal r = rec_bannerLocal ex
          \<and> rec_episodes r = rec_episodes ex
          \<and> rec_source r = rec_source ex
          \<and> rec_totalEpisodes r = rec_totalEpisodes ex
          \<and> rec_fileEpisodes r = Some (map toFileEpisode (files media))
          \<and> rec_folderPath r = Some (media_folderPath media)
          \<and> rec_type r = Some (media_type media)
          \<and> seriesId r = media_id media
          \<and> rec_title r
              = Some (case media_seasonNumber media of
                        None \<Rightarrow> t
                      | Some n \<Rightarrow> if rx_test seasonInParens t then t
                                  else t @ '' (Season '' @ toString n @ '')'')"
proof -
  have "processMedia env existingMetadata newMetadata media (media_id media)
        = Some (cacheHitRecord ex media)"
    using assms(2,3) by (simp add: processMedia_own [OF assms(1)])
  then show ?thesis
    using assms(4) by (simp add: cacheHitRecord_def withSeason_def)
qed

theorem cache_hit_frame_witness:
  "files example_media \<noteq> []
   \<and> [media_id example_media \<mapsto> example_cached] (media_id example_media) = Some example_cached
   \<and> cacheDecision (Some example_cached) example_media = UseCache
   \<and> rec_title example_cached = Some ''My Show (Season 2)''
   \<and> (\<exists>r. processMedia example_env [media_id example_media \<mapsto> example_cached] Map.empty example_media
             (media_id example_media) = Some r
          \<and> rec_description r = rec_description example_cached
          \<and> rec_episodes r = rec_episodes example_cached
          \<and> rec_fileEpisodes r = Some (map toFileEpisode (files example_media))
          \<and> rec_folderPath r = Some (media_folderPath example_media)
          \<and> rec_title r = Some ''My Show (Season 2)'')"
proof -
  have f: "files example_media \<noteq> []"
    by (simp add: example_media_def)
  have e: "[media_id example_media \<mapsto> example_cached] (media_id example_media) = Some example_cached"
    by simp
  have t: "rec_title example_cached = Some ''My Show (Season 2)''"
    by (simp add: example_cached_def)
  have p: "truthy (rec_posterLocal example_cached)" "truthy (rec_title example_cached)"
    by (simp_all add: example_cached_def truthy_def)
  have m: "titlesMatch ''My Show (Season 2)'' example_media"
    by code_simp
  have d: "cacheDecision (Some example_cached) example_media = UseCache"
    using t p m by (simp add: cacheDecision_def)
  have s: "rx_test seasonInParens ''My Show (Season 2)''"
    by code_simp
  have n: "media_seasonNumber example_media = Some 2"
    by (simp add: example_media_def)
  from cache_hit_frame [where media = example_media
      and existingMetadata = "[media_id example_media \<mapsto> example_cached]"
      and ex = example_cached and t = "''My Show (Season 2)''" and env = example_env
      and newMetadata = Map.empty, OF f e d t] s n
  have "\<exists>r. processMedia example_env [media_id example_media \<mapsto> example_cached] Map.empty example_media
             (media_id example_media) = Some r
          \<and> rec_description r = rec_description example_cached
          \<and> rec_episodes r = rec_episodes example_cached
          \<and> rec_fileEpisodes r = Some (map toFileEpisode (files example_media))
          \<and> rec_folderPath r = Some (media_folderPath example_media)
          \<and> rec_title r = Some ''My Show (Season 2)''"
    by auto
  with f e d t show ?thesis by blast
qed

text \<open>
  C4 as stated fails for the title: the entry cached under ``My Show'' and the unit
  ``My Show'' of season 2 give a cache hit whose title is ``My Show (Season 2)''.
\<close>

theorem cache_hit_changes_title:
  "files example_media \<noteq> []
   \<and> cacheDecision (Some example_cached_plain) example_media = UseCache
   \<and> rec_title example_cached_plain = Some ''My Show''
   \<and> processMedia example_env [media_id example_media \<mapsto> example_cached_plain] Map.empty example_media
        (media_id example_media)
       = Some (cacheHitRecord example_cached_plain example_media)
   \<and> rec_title (cacheHitRecord example_cached_plain example_media) = Some ''My Show (Season 2)''"
proof -
  have f: "files example_media \<noteq> []"
    by (simp add: example_media_def)
  have t: "rec_title example_cached_plain = Some ''My Show''"
    by (simp add: example_cached_plain_def)
  have p: "truthy (rec_posterLocal example_cached_plain)" "truthy (rec_title example_cached_plain)"
    by (simp_all add: example_cached_plain_def example_cached_def truthy_def)
  have m: "titlesMatch ''My Show'' example_media"
    by code_simp
  have d: "cacheDecision (Some example_cached_plain) example_media = UseCache"
    using t p m by (simp add: cacheDecision_def)
  have s: "\<not> rx_test seasonInParens ''My Show''"
    by code_simp
  have ts: "toString 2 = ''2''"
    by code_simp
  have n: "media_seasonNumber example_media = Some 2"
    by (simp add: example_media_def)
  have r: "rec_title (cacheHitRecord example_cached_plain example_media) = Some ''My Show (Season 2)''"
    using t s n ts by (simp add: cacheHitRecord_def withSeason_def)
  have "processMedia example_env [media_id example_media \<mapsto> example_cached_plain] Map.empty example_media
        (media_id example_media)
       = Some (cacheHitRecord example_cached_plain example_media)"
    using d by (simp add: processMedia_own [OF f])
  with f d t r show ?thesis by blast
qed


section \<open>Properties of the regular-expression matcher\<close>

text \<open>
  The equations of the star and of the functions that search again after a match are
  unfolded by hand in what follows.
\<close>


declare ms.simps(5) [simp del] ms.simps(6) [simp del]
declare rx_gsub.simps [simp del] rx_match_all.simps [simp del] fetchEpisodes.simps [simp del]

lemma ms_Chr: "ms (Chr p) (pc, s, cs)
   = (case s of [] \<Rightarrow> [] | c # t \<Rightarrow> if p c then [(Some c, t, cs)] else [])"
  by (cases s) simp_all

lemma ms_Star_Chr_Nil: "ms (Star (Chr p)) (pc, [], cs) = [(pc, [], cs)]"
  by (subst ms.simps(5)) simp

lemma ms_Star_Chr_Cons:
  "ms (Star (Chr p)) (pc, c # t, cs)
   = (if p c then ms (Star (Chr p)) (Some c, t, cs) @ [(pc, c # t, cs)] else [(pc, c # t, cs)])"
  by (subst ms.simps(5)) (simp add: rest_len_def)

lemma after_run_Cons:
  "p c \<Longrightarrow> after_run p pc (c # t) = after_run p (Some c) t"
  by (simp add: after_run_def)

lemma star_cont:
  assumes fail: "\<And>pc' c t cs'. p c \<Longrightarrow> Q pc' \<Longrightarrow> k (pc', c # t, cs') = []"
    and step: "\<And>c. p c \<Longrightarrow> Q (Some c)"
  shows "Q pc \<Longrightarrow> concat (map k (ms (Star (Chr p)) (pc, s, cs)))
         = k (after_run p pc s, dropWhile p s, cs)"
proof (induction s arbitrary: pc)
  case Nil
  then show ?case by (simp add: ms_Star_Chr_Nil after_run_def)
next
  case (Cons c t)
  show ?case
  proof (cases "p c")
    case True
    have "concat (map k (ms (Star (Chr p)) (pc, c # t, cs)))
          = concat (map k (ms (Star (Chr p)) (Some c, t, cs))) @ k (pc, c # t, cs)"
      using True by (simp add: ms_Star_Chr_Cons)
    also have "k (pc, c # t, cs) = []"
      using True Cons.prems by (rule fail)
    also have "concat (map k (ms (Star (Chr p)) (Some c, t, cs)))
          = k (after_run p (Some c) t, dropWhile p t, cs)"
      using True by (intro Cons.IH step)
    finally show ?thesis
      using True by (simp add: after_run_Cons)
  next
    case False
    then show ?thesis by (simp add: ms_Star_Chr_Cons after_run_def)
  qed
qed

lemma star_first:
  "\<exists>more. ms (Star (Chr p)) (pc, s, cs) = (after_run p pc s, dropWhile p s, cs) # more"
proof (induction s arbitrary: pc)
  case Nil
  then show ?case by (simp add: ms_Star_Chr_Nil after_run_def)
next
  case (Cons c t)
  show ?case
  proof (cases "p c")
    case True
    obtain more where "ms (Star (Chr p)) (Some c, t, cs)
         = (after_run p (Some c) t, dropWhile p t, cs) # more"
      using Cons.IH by blast
    then show ?thesis
      using True by (simp add: ms_Star_Chr_Cons after_run_Cons)
  next
    case False
    then show ?thesis by (simp add: ms_Star_Chr_Cons after_run_def)
  qed
qed

lemma ms_Plus_Chr:
  "ms (Plus (Chr p)) (pc, s, cs)
   = (case s of [] \<Rightarrow> [] | c # t \<Rightarrow> if p c then ms (Star (Chr p)) (Some c, t, cs) else [])"
  by (cases s) (simp_all add: Plus_def)

lemma plus_cont:
  assumes fail: "\<And>pc' c t cs'. p c \<Longrightarrow> Q pc' \<Longrightarrow> k (pc', c # t, cs') = []"
    and step: "\<And>c. p c \<Longrightarrow> Q (Some c)"
  shows "concat (map k (ms (Plus (Chr p)) (pc, s, cs)))
         = (if takeWhile p s = [] then []
            else k (Some (last (takeWhile p s)), dropWhile p s, cs))"
proof (cases s)
  case Nil
  then show ?thesis by (simp add: ms_Plus_Chr)
next
  case (Cons c t)
  show ?thesis
  proof (cases "p c")
    case True
    have "concat (map k (ms (Star (Chr p)) (Some c, t, cs)))
          = k (after_run p (Some c) t, dropWhile p t, cs)"
    proof (rule star_cont [where Q = Q])
      show "\<And>pc' c t cs'. p c \<Longrightarrow> Q pc' \<Longrightarrow> k (pc', c # t, cs') = []"
        by (rule fail)
      show "\<And>c. p c \<Longrightarrow> Q (Some c)" by (rule step)
      show "Q (Some c)" using True by (rule step)
    qed
    then show ?thesis
      using True Cons by (simp add: ms_Plus_Chr after_run_def)
  next
    case False
    then show ?thesis using Cons by (simp add: ms_Plus_Chr)
  qed
qed

lemma plus_first:
  "takeWhile p s \<noteq> [] \<Longrightarrow>
   \<exists>more. ms (Plus (Chr p)) (pc, s, cs)
           = (Some (last (takeWhile p s)), dropWhile p s, cs) # more"
proof (cases s)
  case Nil
  assume "takeWhile p s \<noteq> []"
  then show ?thesis using Nil by simp
next
  case (Cons c t)
  assume ne: "takeWhile p s \<noteq> []"
  then have pc: "p c" using Cons by (auto split: if_splits)
  obtain more where "ms (Star (Chr p)) (Some c, t, cs)
         = (after_run p (Some c) t, dropWhile p t, cs) # more"
    using star_first by blast
  then show ?thesis
    using pc Cons by (simp add: ms_Plus_Chr after_run_def)
qed

lemma plus_none:
  "takeWhile p s = [] \<Longrightarrow> ms (Plus (Chr p)) (pc, s, cs) = []"
  by (cases s) (auto simp: ms_Plus_Chr split: if_splits)

lemma take_run: "take (length s - length (dropWhile p s)) s = takeWhile p s"
proof -
  have "length s - length (dropWhile p s) = length (takeWhile p s)"
    by (metis add_diff_cancel_right' length_append takeWhile_dropWhile_id)
  then show ?thesis
    by (metis append_eq_conv_conj takeWhile_dropWhile_id)
qed


subsection \<open>Characters\<close>

lemma code_less: "code c < 256"
  by (simp add: code_def)

lemma code_eq_iff: "c = d \<longleftrightarrow> code c = code d"
  by (simp add: code_def)

lemma code_upper_char:
  "code (upper_char c)
   = (if (97 \<le> code c \<and> code c \<le> 122) \<or> (224 \<le> code c \<and> code c \<le> 254 \<and> code c \<noteq> 247)
      then code c - 32 else code c)"
proof -
  have "(code c - 32) mod 256 = code c - 32"
    using code_less [of c] by simp
  then show ?thesis
    by (simp add: upper_char_def is_lower_def code_def)
qed

lemma upper_char_letter:
  assumes "upper_char c = u" and "is_upper u"
  shows "is_upper c \<or> is_lower c"
proof -
  have "code (upper_char c) = code u" using assms(1) by simp
  then show ?thesis
    using assms(2) code_less [of c]
    by (auto simp: code_upper_char is_upper_def is_lower_def split: if_splits)
qed

lemma letter_facts:
  assumes "is_upper c \<or> is_lower c"
  shows "is_word c" and "\<not> is_digit c" and "\<not> is_space c"
  using assms
  by (auto simp: is_word_def is_alnum_def is_digit_def is_space_def is_upper_def is_lower_def)

lemma digit_facts:
  assumes "is_digit c"
  shows "is_word c" and "\<not> is_space c" and "upper_char c = c" and "c \<noteq> CHR ''.''"
proof -
  show "is_word c" using assms by (simp add: is_word_def is_alnum_def)
  show "\<not> is_space c" using assms by (auto simp: is_digit_def is_space_def)
  have "code (upper_char c) = code c"
    using assms by (auto simp: code_upper_char is_digit_def)
  then show "upper_char c = c" by (simp add: code_eq_iff)
  have "code (CHR ''.'') = 46" by (simp add: code_def)
  then show "c \<noteq> CHR ''.''" using assms by (auto simp: is_digit_def)
qed

lemma is_upper_S: "is_upper CHR ''S''" and is_upper_E: "is_upper CHR ''E''"
  by (simp_all add: is_upper_def code_def)

subsection \<open>Runs\<close>

lemma run_takeWhile:
  assumes "list_all p ds" and "rest = [] \<or> \<not> p (hd rest)"
  shows "takeWhile p (ds @ rest) = ds" and "dropWhile p (ds @ rest) = rest"
proof -
  have all: "\<forall>x \<in> set ds. p x" using assms(1) by (simp add: list_all_iff)
  show "takeWhile p (ds @ rest) = ds"
  proof (cases rest)
    case Nil
    then show ?thesis using all by simp
  next
    case (Cons r rs)
    then have "\<not> p r" using assms(2) by simp
    then show ?thesis using all Cons by (simp add: takeWhile_append2)
  qed
  show "dropWhile p (ds @ rest) = rest"
  proof (cases rest)
    case Nil
    then show ?thesis using all by simp
  next
    case (Cons r rs)
    then have "\<not> p r" using assms(2) by simp
    then show ?thesis using all Cons by (simp add: dropWhile_append2)
  qed
qed

subsection \<open>Groups and literals\<close>

lemma ms_Grp:
  "ms (Grp n r) (pc, s, cs)
   = map (\<lambda>st'. (fst st', fst (snd st'),
                  (n, take (length s - rest_len st') s) # snd (snd st'))) (ms r (pc, s, cs))"
  by (simp add: rest_len_def)

lemma grp_plus_cont:
  assumes fail: "\<And>pc' c t cs'. p c \<Longrightarrow> Q pc' \<Longrightarrow> k (pc', c # t, cs') = []"
    and step: "\<And>c. p c \<Longrightarrow> Q (Some c)"
  shows "concat (map k (ms (Grp n (Plus (Chr p))) (pc, s, cs)))
         = (if takeWhile p s = [] then []
            else k (Some (last (takeWhile p s)), dropWhile p s, (n, takeWhile p s) # cs))"
proof -
  define g where "g = (\<lambda>st'::mstate. (fst st', fst (snd st'),
                  (n, take (length s - rest_len st') s) # snd (snd st')))"
  have "concat (map k (ms (Grp n (Plus (Chr p))) (pc, s, cs)))
        = concat (map (\<lambda>st'. k (g st')) (ms (Plus (Chr p)) (pc, s, cs)))"
    by (simp only: ms_Grp g_def map_map comp_def)
  also have "\<dots> = (if takeWhile p s = [] then []
            else k (g (Some (last (takeWhile p s)), dropWhile p s, cs)))"
  proof (rule plus_cont [where Q = Q])
    show "\<And>pc' c t cs'. p c \<Longrightarrow> Q pc' \<Longrightarrow> k (g (pc', c # t, cs')) = []"
      by (simp add: g_def fail)
    show "\<And>c. p c \<Longrightarrow> Q (Some c)" by (rule step)
  qed
  also have "g (Some (last (takeWhile p s)), dropWhile p s, cs)
        = (Some (last (takeWhile p s)), dropWhile p s, (n, takeWhile p s) # cs)"
    by (simp add: g_def rest_len_def take_run)
  finally show ?thesis .
qed

lemma grp_plus_first:
  assumes "takeWhile p s \<noteq> []"
  shows "\<exists>more. ms (Grp n (Plus (Chr p))) (pc, s, cs)
           = (Some (last (takeWhile p s)), dropWhile p s, (n, takeWhile p s) # cs) # more"
proof -
  obtain more where "ms (Plus (Chr p)) (pc, s, cs)
           = (Some (last (takeWhile p s)), dropWhile p s, cs) # more"
    using plus_first [OF assms] by blast
  then show ?thesis
    by (simp add: ms_Grp rest_len_def take_run)
qed

lemma grp_plus_none:
  "takeWhile p s = [] \<Longrightarrow> ms (Grp n (Plus (Chr p))) (pc, s, cs) = []"
  by (simp add: ms_Grp plus_none)

lemma ms_ChI:
  "ms (ChI u) (pc, s, cs)
   = (case s of [] \<Rightarrow> [] | c # t \<Rightarrow> if upper_char c = upper_char u then [(Some c, t, cs)] else [])"
  by (cases s) (simp_all add: ChI_def)

lemma ms_Ch:
  "ms (Ch u) (pc, s, cs)
   = (case s of [] \<Rightarrow> [] | c # t \<Rightarrow> if c = u then [(Some c, t, cs)] else [])"
  by (cases s) (simp_all add: Ch_def)

lemma ms_LitI:
  assumes "lit \<noteq> []" and "toUpperCase w = toUpperCase lit"
  shows "ms (LitI lit) (pc, w @ rest, cs) = [(Some (last w), rest, cs)]"
  using assms
proof (induction lit arbitrary: w pc)
  case Nil
  then show ?case by simp
next
  case (Cons u lit)
  from Cons.prems(2) obtain x w' where w: "w = x # w'"
    and x: "upper_char x = upper_char u" and w': "toUpperCase w' = toUpperCase lit"
    by (cases w) (auto simp: toUpperCase_def)
  show ?case
  proof (cases lit)
    case Nil
    then have "w' = []" using w' by (simp add: toUpperCase_def)
    then show ?thesis using Nil w x by (simp add: LitI_def ms_ChI)
  next
    case (Cons u' lit')
    then have ne: "lit \<noteq> []" by simp
    have "ms (LitI lit) (Some x, w' @ rest, cs) = [(Some (last w'), rest, cs)]"
      using ne w' by (rule Cons.IH)
    moreover have "w' \<noteq> []" using w' Cons by (auto simp: toUpperCase_def)
    ultimately show ?thesis
      using Cons w x by (simp add: LitI_def ms_ChI)
  qed
qed


subsection \<open>Leftmost search\<close>

lemma rx_find_skip:
  assumes "no_match_before r pc (pre @ s) (length pre)"
    and "rx_at r (last_or pc pre) s = Some st"
  shows "rx_find r pc (pre @ s) = Some (pre, st)"
  using assms
proof (induction pre arbitrary: pc)
  case Nil
  then show ?case by (cases s) (simp_all add: last_or_def)
next
  case (Cons c pre)
  have none: "rx_at r pc (c # pre @ s) = None"
    and rest: "no_match_before r (Some c) (pre @ s) (length pre)"
    using Cons.prems(1) by simp_all
  have "last_or (Some c) pre = last_or pc (c # pre)"
    by (simp add: last_or_def)
  then have "rx_find r (Some c) (pre @ s) = Some (pre, st)"
    using Cons.IH [OF rest] Cons.prems(2) by simp
  then show ?case using none by simp
qed

subsection \<open>The pattern \<open>\bS(\d+)E(\d+)\b\<close>\<close>

lemma ms_WordB:
  "ms WordB (pc, s, cs) = (if word_before pc \<noteq> word_after s then [(pc, s, cs)] else [])"
  by simp

lemma ms_Seq: "ms (Seq a b) st = concat (map (ms b) (ms a st))"
  by simp

lemma seq_grp_plus:
  assumes fail: "\<And>pc' c t cs'. p c \<Longrightarrow> Q pc' \<Longrightarrow> ms r (pc', c # t, cs') = []"
    and step: "\<And>c. p c \<Longrightarrow> Q (Some c)"
  shows "ms (Seq (Grp n (Plus (Chr p))) r) (pc, s, cs)
         = (if takeWhile p s = [] then []
            else ms r (Some (last (takeWhile p s)), dropWhile p s, (n, takeWhile p s) # cs))"
  unfolding ms_Seq
proof (rule grp_plus_cont [where Q = Q])
  show "\<And>pc' c t cs'. p c \<Longrightarrow> Q pc' \<Longrightarrow> ms r (pc', c # t, cs') = []" by (rule fail)
  show "\<And>c. p c \<Longrightarrow> Q (Some c)" by (rule step)
qed

lemma seq_star:
  assumes fail: "\<And>pc' c t cs'. p c \<Longrightarrow> ms r (pc', c # t, cs') = []"
  shows "ms (Seq (Star (Chr p)) r) (pc, s, cs) = ms r (after_run p pc s, dropWhile p s, cs)"
  unfolding ms_Seq
proof (rule star_cont [where Q = "\<lambda>pc'. True"])
  show "\<And>pc' c t cs'. p c \<Longrightarrow> True \<Longrightarrow> ms r (pc', c # t, cs') = []" by (simp add: fail)
qed simp_all

lemma ms_seasonEpisodeRx:
  assumes c1: "upper_char c1 = CHR ''S''" and c2: "upper_char c2 = CHR ''E''"
    and d1: "ds1 \<noteq> []" "list_all is_digit ds1"
    and d2: "ds2 \<noteq> []" "list_all is_digit ds2"
    and wb: "\<not> word_before pc" and wa: "\<not> word_after post"
  shows "ms seasonEpisodeRx (pc, c1 # ds1 @ c2 # ds2 @ post, cs)
         = [(Some (last ds2), post, (2, ds2) # (1, ds1) # cs)]"
proof -
  let ?R4 = "Seq (Grp 2 (Plus (Chr is_digit))) WordB"
  let ?R3 = "Seq (ChI CHR ''E'') ?R4"
  let ?R2 = "Seq (Grp 1 (Plus (Chr is_digit))) ?R3"
  let ?R1 = "Seq (ChI CHR ''S'') ?R2"
  have l1: "is_upper c1 \<or> is_lower c1" using c1 is_upper_S by (rule upper_char_letter)
  have l2: "is_upper c2 \<or> is_lower c2" using c2 is_upper_E by (rule upper_char_letter)
  have uS: "upper_char CHR ''S'' = CHR ''S''" and uE: "upper_char CHR ''E'' = CHR ''E''"
    by (simp_all add: code_eq_iff code_upper_char) (simp_all add: code_def)
  have notE: "\<And>c. is_digit c \<Longrightarrow> upper_char c \<noteq> CHR ''E''"
    using is_upper_E letter_facts(2) upper_char_letter by blast
  have post: "post = [] \<or> \<not> is_digit (hd post)"
    using wa digit_facts(1) by (cases post) (auto simp: word_after_def)
  have run1: "takeWhile is_digit (ds1 @ c2 # ds2 @ post) = ds1"
             "dropWhile is_digit (ds1 @ c2 # ds2 @ post) = c2 # ds2 @ post"
    using d1(2) letter_facts(2) [OF l2] by (simp_all add: run_takeWhile)
  have run2: "takeWhile is_digit (ds2 @ post) = ds2" "dropWhile is_digit (ds2 @ post) = post"
    using d2(2) post by (simp_all add: run_takeWhile)
  have last2: "is_digit (last ds2)"
    using d2 by (simp add: list_all_iff)
  have "ms ?R4 (Some c2, ds2 @ post, (1, ds1) # cs)
          = (if takeWhile is_digit (ds2 @ post) = [] then []
             else ms WordB (Some (last (takeWhile is_digit (ds2 @ post))),
                            dropWhile is_digit (ds2 @ post),
                            (2, takeWhile is_digit (ds2 @ post)) # (1, ds1) # cs))"
  proof (rule seq_grp_plus [where Q = "\<lambda>pc'. \<exists>d. pc' = Some d \<and> is_digit d"])
    show "\<And>pc' c t cs'. is_digit c \<Longrightarrow> \<exists>d. pc' = Some d \<and> is_digit d
            \<Longrightarrow> ms WordB (pc', c # t, cs') = []"
      using digit_facts(1) by (auto simp: word_before_def word_after_def)
    show "\<And>c. is_digit c \<Longrightarrow> \<exists>d. Some c = Some d \<and> is_digit d" by simp
  qed
  then have s4: "ms ?R4 (Some c2, ds2 @ post, (1, ds1) # cs)
            = [(Some (last ds2), post, (2, ds2) # (1, ds1) # cs)]"
    using run2 d2(1) wa last2 digit_facts(1) by (simp add: word_before_def)
  have s3: "ms ?R3 (Some (last ds1), c2 # ds2 @ post, (1, ds1) # cs)
            = [(Some (last ds2), post, (2, ds2) # (1, ds1) # cs)]"
    using c2 s4 by (simp add: ms_ChI uE)
  have "ms ?R2 (Some c1, ds1 @ c2 # ds2 @ post, cs)
          = (if takeWhile is_digit (ds1 @ c2 # ds2 @ post) = [] then []
             else ms ?R3 (Some (last (takeWhile is_digit (ds1 @ c2 # ds2 @ post))),
                          dropWhile is_digit (ds1 @ c2 # ds2 @ post),
                          (1, takeWhile is_digit (ds1 @ c2 # ds2 @ post)) # cs))"
  proof (rule seq_grp_plus [where Q = "\<lambda>pc'. True"])
    show "\<And>pc' c t cs'. is_digit c \<Longrightarrow> True \<Longrightarrow> ms ?R3 (pc', c # t, cs') = []"
      using notE by (simp add: ms_ChI uE)
    show "\<And>c. is_digit c \<Longrightarrow> True" by simp
  qed
  then have s2: "ms ?R2 (Some c1, ds1 @ c2 # ds2 @ post, cs)
            = [(Some (last ds2), post, (2, ds2) # (1, ds1) # cs)]"
    using run1 d1(1) s3 by simp
  have s1: "ms ?R1 (pc, c1 # ds1 @ c2 # ds2 @ post, cs)
            = [(Some (last ds2), post, (2, ds2) # (1, ds1) # cs)]"
    using c1 s2 by (simp add: ms_ChI uS)
  have "word_after (c1 # ds1 @ c2 # ds2 @ post)"
    using letter_facts(1) [OF l1] by (simp add: word_after_def)
  then show ?thesis
    using wb s1 by (simp add: seasonEpisodeRx_def digit_def)
qed


subsection \<open>The pattern \<open>Episode\s*(\d+)\.(\d+)\<close>\<close>

declare ms.simps(3) [simp del]

lemma space_not_digit: "is_space c \<Longrightarrow> \<not> is_digit c"
  using digit_facts(2) by blast

lemma upper_Episode: "toUpperCase ''Episode'' = ''EPISODE''"
  by code_simp

lemma ms_decimalEpisodeRx:
  assumes ep: "toUpperCase ep = ''EPISODE''"
    and ws: "list_all is_space ws"
    and d1: "ds1 \<noteq> []" "list_all is_digit ds1"
    and d2: "ds2 \<noteq> []" "list_all is_digit ds2"
    and post: "post = [] \<or> \<not> is_digit (hd post)"
  shows "\<exists>more. ms decimalEpisodeRx (pc, ep @ ws @ ds1 @ CHR ''.'' # ds2 @ post, cs)
         = (Some (last ds2), post, (2, ds2) # (1, ds1) # cs) # more"
proof -
  let ?G2 = "Grp 2 (Plus (Chr is_digit))"
  let ?R3 = "Seq (Ch CHR ''.'') ?G2"
  let ?R2 = "Seq (Grp 1 (Plus (Chr is_digit))) ?R3"
  let ?R1 = "Seq (Star (Chr is_space)) ?R2"
  have hd1: "\<not> is_space (hd ds1)"
    using d1 digit_facts(2) by (cases ds1) (auto simp: list_all_iff)
  have notdot: "\<not> is_digit CHR ''.''"
    using digit_facts(4) by blast
  have run0: "dropWhile is_space (ws @ ds1 @ CHR ''.'' # ds2 @ post) = ds1 @ CHR ''.'' # ds2 @ post"
    using ws hd1 d1(1) by (simp add: run_takeWhile)
  have run1: "takeWhile is_digit (ds1 @ CHR ''.'' # ds2 @ post) = ds1"
             "dropWhile is_digit (ds1 @ CHR ''.'' # ds2 @ post) = CHR ''.'' # ds2 @ post"
    using d1(2) notdot by (simp_all add: run_takeWhile)
  have run2: "takeWhile is_digit (ds2 @ post) = ds2" "dropWhile is_digit (ds2 @ post) = post"
    using d2(2) post by (simp_all add: run_takeWhile)
  have r3fail: "\<And>pc' c t cs'. is_digit c \<Longrightarrow> ms ?R3 (pc', c # t, cs') = []"
  proof -
    fix pc' c t cs'
    assume "is_digit c"
    then have "ms (Ch CHR ''.'') (pc', c # t, cs') = []"
      using digit_facts(4) by (simp add: ms_Ch)
    then show "ms ?R3 (pc', c # t, cs') = []"
      by (simp add: ms_Seq)
  qed
  have r2: "\<And>pc' s cs'. ms ?R2 (pc', s, cs')
          = (if takeWhile is_digit s = [] then []
             else ms ?R3 (Some (last (takeWhile is_digit s)), dropWhile is_digit s,
                          (1, takeWhile is_digit s) # cs'))"
  proof (rule seq_grp_plus [where Q = "\<lambda>pc'. True"])
    show "\<And>pc' c t cs'. is_digit c \<Longrightarrow> True \<Longrightarrow> ms ?R3 (pc', c # t, cs') = []"
      by (rule r3fail)
  qed simp
  have r2fail: "\<And>pc' c t cs'. is_space c \<Longrightarrow> ms ?R2 (pc', c # t, cs') = []"
  proof -
    fix pc' c t cs'
    assume "is_space c"
    then have "takeWhile is_digit (c # t) = []"
      using space_not_digit by simp
    then show "ms ?R2 (pc', c # t, cs') = []"
      by (subst r2) simp
  qed
  have r1: "\<And>pc' s cs'. ms ?R1 (pc', s, cs')
          = ms ?R2 (after_run is_space pc' s, dropWhile is_space s, cs')"
    using r2fail by (rule seq_star)
  obtain more where g2: "ms ?G2 (Some CHR ''.'', ds2 @ post, (1, ds1) # cs)
          = (Some (last ds2), post, (2, ds2) # (1, ds1) # cs) # more"
    using grp_plus_first [of is_digit "ds2 @ post" 2 "Some CHR ''.''" "(1, ds1) # cs"] run2 d2(1)
    by auto
  have "ms ?R3 (Some (last ds1), CHR ''.'' # ds2 @ post, (1, ds1) # cs)
          = ms ?G2 (Some CHR ''.'', ds2 @ post, (1, ds1) # cs)"
    by (simp add: ms_Seq ms_Ch)
  then have s3: "ms ?R3 (Some (last ds1), CHR ''.'' # ds2 @ post, (1, ds1) # cs)
          = (Some (last ds2), post, (2, ds2) # (1, ds1) # cs) # more"
    using g2 by simp
  have s2: "ms ?R2 (after_run is_space (Some (last ep)) (ws @ ds1 @ CHR ''.'' # ds2 @ post),
                    ds1 @ CHR ''.'' # ds2 @ post, cs)
          = (Some (last ds2), post, (2, ds2) # (1, ds1) # cs) # more"
    using run1 d1(1) s3 by (subst r2) simp
  have s1: "ms ?R1 (Some (last ep), ws @ ds1 @ CHR ''.'' # ds2 @ post, cs)
          = (Some (last ds2), post, (2, ds2) # (1, ds1) # cs) # more"
    using s2 run0 by (subst r1) simp
  have lit: "ms (LitI ''Episode'') (pc, ep @ ws @ ds1 @ CHR ''.'' # ds2 @ post, cs)
          = [(Some (last ep), ws @ ds1 @ CHR ''.'' # ds2 @ post, cs)]"
    using ep by (intro ms_LitI) (simp_all add: upper_Episode)
  have "ms decimalEpisodeRx (pc, ep @ ws @ ds1 @ CHR ''.'' # ds2 @ post, cs)
        = concat (map (ms ?R1) (ms (LitI ''Episode'') (pc, ep @ ws @ ds1 @ CHR ''.'' # ds2 @ post, cs)))"
    by (simp add: decimalEpisodeRx_def digit_def space_def ms_Seq)
  then show ?thesis
    using lit s1 by simp
qed

subsection \<open>All digit runs\<close>

lemma rx_at_Plus_Chr:
  "rx_at (Plus (Chr p)) pc s
   = (if takeWhile p s = [] then None
      else Some (Some (last (takeWhile p s)), dropWhile p s, []))"
proof (cases "takeWhile p s = []")
  case True
  then show ?thesis by (simp add: rx_at_def plus_none)
next
  case False
  then obtain more where "ms (Plus (Chr p)) (pc, s, [])
           = (Some (last (takeWhile p s)), dropWhile p s, []) # more"
    using plus_first by blast
  then show ?thesis using False by (simp add: rx_at_def)
qed

lemma dropWhile_shorter: "takeWhile p s \<noteq> [] \<Longrightarrow> length (dropWhile p s) < length s"
  by (cases s) (auto simp: length_dropWhile_le less_Suc_eq_le split: if_splits)

lemma rx_match_all_some:
  "rx_at r pc s = Some st \<Longrightarrow> rest_len st < length s \<Longrightarrow>
   rx_match_all r pc s = take (length s - rest_len st) s # rx_match_all r (fst st) (fst (snd st))"
  by (subst rx_match_all.simps) simp

lemma rx_match_all_none:
  "rx_at r pc [] = None \<Longrightarrow> rx_match_all r pc [] = []"
  "rx_at r pc (c # t) = None \<Longrightarrow> rx_match_all r pc (c # t) = rx_match_all r (Some c) t"
  by (subst rx_match_all.simps, simp)+

lemma rx_match_all_digits: "rx_match_all (Plus digit) pc s = digit_runs s"
proof (induction s arbitrary: pc rule: digit_runs.induct)
  case 1
  show ?case
    by (simp add: rx_match_all_none(1) digit_def rx_at_Plus_Chr)
next
  case (2 c t)
  show ?case
  proof (cases "is_digit c")
    case True
    let ?st = "(Some (last (takeWhile is_digit (c # t))), dropWhile is_digit (c # t),
                [] :: (nat \<times> string) list)"
    have ne: "takeWhile is_digit (c # t) \<noteq> []" using True by simp
    have at: "rx_at (Plus digit) pc (c # t) = Some ?st"
      using ne by (simp only: digit_def rx_at_Plus_Chr if_False)
    have shorter: "rest_len ?st < length (c # t)"
      using dropWhile_shorter [OF ne] by (simp add: rest_len_def)
    have "rx_match_all (Plus digit) pc (c # t)
          = take (length (c # t) - rest_len ?st) (c # t)
            # rx_match_all (Plus digit) (fst ?st) (fst (snd ?st))"
      using at shorter by (rule rx_match_all_some)
    also have "take (length (c # t) - rest_len ?st) (c # t) = takeWhile is_digit (c # t)"
      unfolding rest_len_def fst_conv snd_conv by (rule take_run)
    finally have "rx_match_all (Plus digit) pc (c # t)
          = takeWhile is_digit (c # t)
            # rx_match_all (Plus digit) (Some (last (takeWhile is_digit (c # t))))
                (dropWhile is_digit t)"
      using True by simp
    then show ?thesis
      using True "2.IH"(1) by simp
  next
    case False
    have "rx_at (Plus digit) pc (c # t) = None"
      using False by (simp add: digit_def rx_at_Plus_Chr)
    then have "rx_match_all (Plus digit) pc (c # t) = rx_match_all (Plus digit) (Some c) t"
      by (rule rx_match_all_none(2))
    then show ?thesis
      using False "2.IH"(2) by simp
  qed
qed


section \<open>Properties of the title normalization\<close>

text \<open>
  The three replacements of \<open>normalizeForComparison\<close> do what the list functions of
  \<open>spec_normalize\<close> do.
\<close>

lemma season_marker_shorter:
  assumes "season_marker s = Some rest"
  shows "length rest < length s"
proof -
  let ?s1 = "dropWhile is_space s"
  let ?s2 = "dropWhile is_space (drop 7 ?s1)"
  let ?s3 = "dropWhile is_digit ?s2"
  from assms have r: "rest = drop 1 ?s3" and ne: "take 1 ?s3 = '')''"
    by (simp_all add: season_marker_def Let_def split: if_splits)
  have "take 1 ?s3 \<noteq> []" by (simp only: ne) simp
  then have "?s3 \<noteq> []" by (metis take_Nil)
  then have "length rest < length ?s3" using r by simp
  also have "\<dots> \<le> length ?s2" by (rule length_dropWhile_le)
  also have "\<dots> \<le> length (drop 7 ?s1)" by (rule length_dropWhile_le)
  also have "\<dots> \<le> length ?s1" by simp
  also have "\<dots> \<le> length s" by (rule length_dropWhile_le)
  finally show ?thesis .
qed

lemma ms_LitI_gen:
  assumes "lit \<noteq> []"
  shows "ms (LitI lit) (pc, s, cs)
         = (if toUpperCase (take (length lit) s) = toUpperCase lit
            then [(Some (last (take (length lit) s)), drop (length lit) s, cs)] else [])"
  using assms
proof (induction lit arbitrary: s pc)
  case Nil
  then show ?case by simp
next
  case (Cons u lit)
  show ?case
  proof (cases lit)
    case Nil
    then show ?thesis
      by (cases s) (auto simp: LitI_def ms_ChI toUpperCase_def)
  next
    case (Cons u' lit')
    then have ne: "lit \<noteq> []" by simp
    have seq: "LitI (u # lit) = Seq (ChI u) (LitI lit)"
      using Cons by (simp add: LitI_def)
    show ?thesis
    proof (cases s)
      case Nil
      then show ?thesis by (simp add: seq ms_Seq ms_ChI toUpperCase_def)
    next
      case (Cons x w)
      have "take (length lit) w \<noteq> [] \<or> toUpperCase (take (length lit) w) \<noteq> toUpperCase lit"
        using ne by (cases w) (auto simp: toUpperCase_def)
      then show ?thesis
        using Cons Cons.IH [OF ne, of "Some x" w]
        by (auto simp: seq ms_Seq ms_ChI toUpperCase_def)
    qed
  qed
qed


lemma rx_gsub_none:
  "rx_at r pc [] = None \<Longrightarrow> rx_gsub r repl pc [] = []"
  "rx_at r pc (c # t) = None \<Longrightarrow> rx_gsub r repl pc (c # t) = c # rx_gsub r repl (Some c) t"
  by (subst rx_gsub.simps, simp)+

lemma rx_gsub_some:
  "rx_at r pc s = Some st \<Longrightarrow> rest_len st < length s \<Longrightarrow>
   rx_gsub r repl pc s = repl @ rx_gsub r repl (fst st) (fst (snd st))"
  by (subst rx_gsub.simps) simp

lemma seq_plus:
  assumes fail: "\<And>pc' c t cs'. p c \<Longrightarrow> ms r (pc', c # t, cs') = []"
  shows "ms (Seq (Plus (Chr p)) r) (pc, s, cs)
         = (if takeWhile p s = [] then []
            else ms r (Some (last (takeWhile p s)), dropWhile p s, cs))"
  unfolding ms_Seq
proof (rule plus_cont [where Q = "\<lambda>pc'. True"])
  show "\<And>pc' c t cs'. p c \<Longrightarrow> True \<Longrightarrow> ms r (pc', c # t, cs') = []" by (simp add: fail)
qed simp

lemma upper_season: "toUpperCase ''season'' = ''SEASON''"
  by code_simp

lemma paren_facts:
  "\<not> is_space CHR ''(''" "\<not> is_digit CHR '')''"
  by (simp_all add: is_space_def is_digit_def code_def)

lemma ms_Ch_take:
  "ms (Ch u) (pc, x, cs) = (if take 1 x = [u] then [(Some u, drop 1 x, cs)] else [])"
  by (cases x) (auto simp: ms_Ch)

lemma ms_season_marker:
  "ms seasonSuffixRx (pc, s, [])
   = (case season_marker s of None \<Rightarrow> [] | Some rest \<Rightarrow> [(Some CHR '')'', rest, [])])"
proof -
  let ?R5 = "Seq (Plus (Chr is_digit)) (Ch CHR '')'')"
  let ?R4 = "Seq (Star (Chr is_space)) ?R5"
  let ?R3 = "Seq (LitI ''season'') ?R4"
  let ?R2 = "Seq (Ch CHR ''('') ?R3"
  let ?R1 = "Seq (Star (Chr is_space)) ?R2"
  have r5: "\<And>pc' s cs'. ms ?R5 (pc', s, cs')
          = (if takeWhile is_digit s = [] then []
             else ms (Ch CHR '')'') (Some (last (takeWhile is_digit s)), dropWhile is_digit s, cs'))"
  proof (rule seq_plus)
    show "\<And>pc' c t cs'. is_digit c \<Longrightarrow> ms (Ch CHR '')'') (pc', c # t, cs') = []"
      using paren_facts(2) by (auto simp: ms_Ch)
  qed
  have r5fail: "\<And>pc' c t cs'. is_space c \<Longrightarrow> ms ?R5 (pc', c # t, cs') = []"
  proof -
    fix pc' c t cs'
    assume "is_space c"
    then have "takeWhile is_digit (c # t) = []"
      using space_not_digit by simp
    then show "ms ?R5 (pc', c # t, cs') = []"
      by (subst r5) simp
  qed
  have r4: "\<And>pc' s cs'. ms ?R4 (pc', s, cs')
          = ms ?R5 (after_run is_space pc' s, dropWhile is_space s, cs')"
    using r5fail by (rule seq_star)
  have len: "length ''season'' = 6" by simp
  have lit: "\<And>pc' s cs'. ms (LitI ''season'') (pc', s, cs')
          = (if toUpperCase (take 6 s) = ''SEASON''
             then [(Some (last (take 6 s)), drop 6 s, cs')] else [])"
    by (rule ms_LitI_gen [of "''season''", unfolded len upper_season]) simp
  have r3: "\<And>pc' s cs'. ms ?R3 (pc', s, cs')
          = (if toUpperCase (take 6 s) = ''SEASON''
             then ms ?R4 (Some (last (take 6 s)), drop 6 s, cs') else [])"
    by (simp add: ms_Seq lit)
  have r2: "\<And>pc' s cs'. ms ?R2 (pc', s, cs')
          = (case s of [] \<Rightarrow> []
             | c # t \<Rightarrow> if c = CHR ''('' then ms ?R3 (Some c, t, cs') else [])"
    by (simp add: ms_Seq ms_Ch split: list.splits)
  have r2fail: "\<And>pc' c t cs'. is_space c \<Longrightarrow> ms ?R2 (pc', c # t, cs') = []"
  proof -
    fix pc' c t cs'
    assume "is_space c"
    then have "c \<noteq> CHR ''(''" using paren_facts(1) by auto
    then show "ms ?R2 (pc', c # t, cs') = []"
      by (subst r2) simp
  qed
  have r1: "\<And>pc' s cs'. ms ?R1 (pc', s, cs')
          = ms ?R2 (after_run is_space pc' s, dropWhile is_space s, cs')"
    using r2fail by (rule seq_star)
  have R: "seasonSuffixRx = ?R1"
    by (simp add: seasonSuffixRx_def space_def digit_def)
  show ?thesis
  proof (cases "dropWhile is_space s")
    case Nil
    show ?thesis
      unfolding R by (subst r1, subst r2) (simp add: season_marker_def Nil)
  next
    case s1: (Cons c t)
    show ?thesis
    proof (cases "c = CHR ''('' \<and> toUpperCase (take 6 t) = ''SEASON''")
      case False
      then show ?thesis
        unfolding R by (subst r1, subst r2, subst r3) (auto simp: season_marker_def s1)
    next
      case True
      let ?s2 = "dropWhile is_space (drop 6 t)"
      have step: "ms ?R1 (pc, s, [])
            = (if takeWhile is_digit ?s2 = [] then []
               else ms (Ch CHR '')'') (Some (last (takeWhile is_digit ?s2)),
                                       dropWhile is_digit ?s2, []))"
        using True by (subst r1, subst r2, subst r3, subst r4, subst r5) (simp add: s1)
      have sm: "season_marker s
            = (if takeWhile is_digit ?s2 \<noteq> [] \<and> take 1 (dropWhile is_digit ?s2) = '')''
               then Some (drop 1 (dropWhile is_digit ?s2)) else None)"
        using True by (simp add: season_marker_def s1)
      show ?thesis
        unfolding R step sm by (simp add: ms_Ch_take)
    qed
  qed
qed

lemma rx_at_season_marker:
  "rx_at seasonSuffixRx pc s
   = map_option (\<lambda>rest. (Some CHR '')'', rest, [])) (season_marker s)"
  by (simp add: rx_at_def ms_season_marker split: option.splits)

lemma rx_gsub_season_marker:
  "rx_gsub seasonSuffixRx [] pc s
   = strip_season_markers s"
proof (induction s arbitrary: pc rule: strip_season_markers.induct)
  case 1
  show ?case
    by (simp add: rx_gsub_none(1) rx_at_season_marker season_marker_def)
next
  case (2 c t)
  show ?case
  proof (cases "season_marker (c # t)")
    case None
    then show ?thesis
      using "2.IH"(1) by (simp add: rx_gsub_none(2) rx_at_season_marker)
  next
    case (Some rest)
    let ?R = seasonSuffixRx
    let ?st = "(Some CHR '')'', rest, [] :: (nat \<times> string) list)"
    have at: "rx_at ?R pc (c # t) = Some ?st"
      using Some by (simp only: rx_at_season_marker option.map)
    have shorter: "rest_len ?st < length (c # t)"
      using season_marker_shorter [OF Some] by (simp add: rest_len_def)
    have "rx_gsub ?R [] pc (c # t) = [] @ rx_gsub ?R [] (fst ?st) (fst (snd ?st))"
      using at shorter by (rule rx_gsub_some)
    then show ?thesis
      using Some "2.IH"(2) by simp
  qed
qed

lemma rx_at_Chr:
  "rx_at (Chr p) pc s
   = (case s of [] \<Rightarrow> None | c # t \<Rightarrow> if p c then Some (Some c, t, []) else None)"
  by (cases s) (simp_all add: rx_at_def)

lemma rx_gsub_Chr: "rx_gsub (Chr p) [] pc s = filter (\<lambda>c. \<not> p c) s"
proof (induction s arbitrary: pc)
  case Nil
  show ?case by (simp add: rx_gsub_none(1) rx_at_Chr)
next
  case (Cons c t)
  show ?case
  proof (cases "p c")
    case True
    let ?st = "(Some c, t, [] :: (nat \<times> string) list)"
    have at: "rx_at (Chr p) pc (c # t) = Some ?st"
      using True by (simp add: rx_at_Chr)
    have "rx_gsub (Chr p) [] pc (c # t) = [] @ rx_gsub (Chr p) [] (fst ?st) (fst (snd ?st))"
      using at by (rule rx_gsub_some) (simp add: rest_len_def)
    then show ?thesis using True Cons.IH by simp
  next
    case False
    then have "rx_at (Chr p) pc (c # t) = None" by (simp add: rx_at_Chr)
    then show ?thesis using False Cons.IH by (simp add: rx_gsub_none(2))
  qed
qed

lemma rx_gsub_spaces:
  "rx_gsub (Plus (Chr is_space)) '' '' pc s = collapse_whitespace s"
proof (induction s arbitrary: pc rule: collapse_whitespace.induct)
  case 1
  show ?case by (simp add: rx_gsub_none(1) rx_at_Plus_Chr)
next
  case (2 c t)
  show ?case
  proof (cases "is_space c")
    case True
    let ?st = "(Some (last (takeWhile is_space (c # t))), dropWhile is_space (c # t),
                [] :: (nat \<times> string) list)"
    have ne: "takeWhile is_space (c # t) \<noteq> []" using True by simp
    have at: "rx_at (Plus (Chr is_space)) pc (c # t) = Some ?st"
      using ne by (simp only: rx_at_Plus_Chr if_False)
    have shorter: "rest_len ?st < length (c # t)"
      using dropWhile_shorter [OF ne] by (simp add: rest_len_def)
    have "rx_gsub (Plus (Chr is_space)) '' '' pc (c # t)
          = '' '' @ rx_gsub (Plus (Chr is_space)) '' '' (fst ?st) (fst (snd ?st))"
      using at shorter by (rule rx_gsub_some)
    then show ?thesis
      using True "2.IH"(1) by simp
  next
    case False
    have "rx_at (Plus (Chr is_space)) pc (c # t) = None"
      using False by (simp add: rx_at_Plus_Chr)
    then have "rx_gsub (Plus (Chr is_space)) '' '' pc (c # t)
               = c # rx_gsub (Plus (Chr is_space)) '' '' (Some c) t"
      by (rule rx_gsub_none(2))
    then show ?thesis
      using False "2.IH"(2) by simp
  qed
qed

lemma normalizeForComparison_spec:
  "normalizeForComparison t
   = trim (collapse_whitespace
            (filter (\<lambda>c. is_lower c \<or> is_digit c \<or> is_space c) (strip_season_markers t)))"
  by (simp add: normalizeForComparison_def replace_all_def rx_gsub_season_marker
        rx_gsub_Chr rx_gsub_spaces space_def)

lemma normalized_spec:
  "normalizedCached t = spec_normalize t"
  "normalizedSeries media = spec_normalize (media_name media)"
  by (simp_all add: normalizedCached_def normalizedSeries_def spec_normalize_def
        normalizeForComparison_spec)

section \<open>Properties of the cache check\<close>

text \<open>
  C3, as amended. For an existing entry with a title and a locally cached poster, the
  cached title and the name of the unit are normalized: lower case and trimmed, every
  season marker \<open>(Season N)\<close> removed with the white space before it, every character
  other than a letter \<open>a\<close> to \<open>z\<close>, a digit or white space removed, every run of white
  space turned into one space, trimmed. The cached entry is used exactly when the two
  normalized strings are equal, or the normalized name has at least 5 characters and one
  of the two is a substring of the other. For a normalized name shorter than 5
  characters (so also for one shorter than 3) the cached entry is used exactly when the
  two are equal. A unit with files gets the cached entry refreshed in the first case and
  a freshly fetched entry otherwise.
\<close>

theorem cache_check:
  assumes "rec_title ex = Some t" and "t \<noteq> []" and "truthy (rec_posterLocal ex)"
  shows "normalizedCached t = spec_normalize t
         \<and> normalizedSeries media = spec_normalize (media_name media)
         \<and> (cacheDecision (Some ex) media = UseCache \<longleftrightarrow>
              spec_normalize t = spec_normalize (media_name media)
              \<or> (length (spec_normalize (media_name media)) \<ge> 5
                 \<and> (substring_of (spec_normalize (media_name media)) (spec_normalize t)
                    \<or> substring_of (spec_normalize t) (spec_normalize (media_name media)))))
         \<and> (length (spec_normalize (media_name media)) < 5 \<longrightarrow>
              (cacheDecision (Some ex) media = UseCache
                 \<longleftrightarrow> spec_normalize t = spec_normalize (media_name media)))
         \<and> (files media \<noteq> [] \<longrightarrow> existingMetadata (media_id media) = Some ex \<longrightarrow>
              processMedia env existingMetadata newMetadata media (media_id media)
                = Some (if cacheDecision (Some ex) media = UseCache
                        then cacheHitRecord ex media else freshRecord env media))"
proof -
  have nc: "normalizedCached t = spec_normalize t"
    by (rule normalized_spec(1))
  have ns: "normalizedSeries media = spec_normalize (media_name media)"
    by (rule normalized_spec(2))
  have tr: "truthy (rec_title ex)" using assms by (simp add: truthy_def)
  have dec: "cacheDecision (Some ex) media = UseCache \<longleftrightarrow> titlesMatch t media"
    using tr assms by (simp add: cacheDecision_def)
  have tm: "titlesMatch t media \<longleftrightarrow>
            spec_normalize t = spec_normalize (media_name media)
            \<or> (length (spec_normalize (media_name media)) \<ge> 5
               \<and> (substring_of (spec_normalize (media_name media)) (spec_normalize t)
                  \<or> substring_of (spec_normalize t) (spec_normalize (media_name media))))"
    by (simp add: titlesMatch_def str_includes_iff nc ns)
  show ?thesis
  proof (intro conjI impI)
    show "normalizedCached t = spec_normalize t" by (rule nc)
  next
    show "normalizedSeries media = spec_normalize (media_name media)" by (rule ns)
  next
    show "cacheDecision (Some ex) media = UseCache \<longleftrightarrow>
            spec_normalize t = spec_normalize (media_name media)
            \<or> (length (spec_normalize (media_name media)) \<ge> 5
               \<and> (substring_of (spec_normalize (media_name media)) (spec_normalize t)
                  \<or> substring_of (spec_normalize t) (spec_normalize (media_name media))))"
      using dec tm by simp
  next
    assume "length (spec_normalize (media_name media)) < 5"
    then show "cacheDecision (Some ex) media = UseCache
                 \<longleftrightarrow> spec_normalize t = spec_normalize (media_name media)"
      using dec tm by simp
  next
    assume f: "files media \<noteq> []" and e: "existingMetadata (media_id media) = Some ex"
    show "processMedia env existingMetadata newMetadata media (media_id media)
                = Some (if cacheDecision (Some ex) media = UseCache
                        then cacheHitRecord ex media else freshRecord env media)"
      using e by (simp add: processMedia_own [OF f] split: cache_decision.splits)
  qed
qed

theorem cache_check_witness:
  "rec_title example_cached = Some ''My Show (Season 2)''
   \<and> ''My Show (Season 2)'' \<noteq> []
   \<and> truthy (rec_posterLocal example_cached)
   \<and> media_name example_media = ''My Show''
   \<and> spec_normalize ''My Show (Season 2)'' = ''my show''
   \<and> spec_normalize ''My Show'' = ''my show''
   \<and> normalizedCached ''My Show (Season 2)'' = ''my show''
   \<and> normalizedSeries example_media = ''my show''
   \<and> cacheDecision (Some example_cached) example_media = UseCache
   \<and> files example_media \<noteq> []
   \<and> processMedia example_env [media_id example_media \<mapsto> example_cached] Map.empty example_media
        (media_id example_media)
       = Some (cacheHitRecord example_cached example_media)"
proof -
  have t: "rec_title example_cached = Some ''My Show (Season 2)''"
    by (simp add: example_cached_def)
  have ne: "''My Show (Season 2)'' \<noteq> []" by simp
  have p: "truthy (rec_posterLocal example_cached)"
    by (simp add: example_cached_def truthy_def)
  have nm: "media_name example_media = ''My Show''"
    by (simp add: example_media_def)
  have s1: "spec_normalize ''My Show (Season 2)'' = ''my show''" by code_simp
  have s2: "spec_normalize ''My Show'' = ''my show''" by code_simp
  have f: "files example_media \<noteq> []"
    by (simp add: example_media_def)
  note T = cache_check [OF t ne p, of example_media
      "[media_id example_media \<mapsto> example_cached]" example_env Map.empty]
  from T have c: "normalizedCached ''My Show (Season 2)'' = ''my show''"
    and s: "normalizedSeries example_media = ''my show''"
    by (simp_all add: nm s1 s2)
  from T have hit: "cacheDecision (Some example_cached) example_media = UseCache"
    by (simp add: nm s1 s2)
  from T f hit have "processMedia example_env [media_id example_media \<mapsto> example_cached] Map.empty
        example_media (media_id example_media)
       = Some (cacheHitRecord example_cached example_media)"
    by simp
  with t ne p nm s1 s2 c s hit f show ?thesis by blast
qed

text \<open>
  C3 as stated fails: the unit ``86'' has a normalized name of 2 characters, and with
  an entry cached under the title ``86'' the cached entry is used; nothing is fetched
  again.
\<close>

theorem short_name_cache_hit:
  "rec_title cached_86 = Some ''86''
   \<and> truthy (rec_posterLocal cached_86)
   \<and> length (normalizedSeries media_86) < 3
   \<and> cacheDecision (Some cached_86) media_86 = UseCache"
proof -
  have t: "rec_title cached_86 = Some ''86''"
    by (simp add: cached_86_def)
  have p: "truthy (rec_posterLocal cached_86)"
    by (simp add: cached_86_def example_cached_def truthy_def)
  have n1: "normalizedSeries media_86 = ''86''" by code_simp
  have n2: "normalizedCached ''86'' = ''86''" by code_simp
  have "titlesMatch ''86'' media_86"
    by (simp add: titlesMatch_def n1 n2)
  then have "cacheDecision (Some cached_86) media_86 = UseCache"
    using t p by (simp add: cacheDecision_def truthy_def)
  with t p n1 show ?thesis by simp
qed

section \<open>Properties of the filename tokenizer\<close>


lemma rx_match_found:
  assumes "no_match_before r None (pre @ s) (length pre)"
    and "\<exists>more. ms r (last_or None pre, s, []) = st # more"
  shows "rx_match r (pre @ s) = Some (map_of (snd (snd st)))"
proof -
  from assms(2) have "rx_at r (last_or None pre) s = Some st"
    by (auto simp: rx_at_def)
  with assms(1) have "rx_find r None (pre @ s) = Some (pre, st)"
    by (rule rx_find_skip)
  then show ?thesis by (simp add: rx_match_def)
qed

text \<open>
  C5, as amended. When the base name of a file (its name without the extension) has,
  between two word boundaries, an \<open>S\<close> or \<open>s\<close>, a run of digits, an \<open>E\<close> or \<open>e\<close> and a
  run of digits, and the pattern of the source matches at no earlier position, the
  tokenizer returns the two runs as season and episode, whatever other digits the name
  holds. This is the first branch of the tokenizer.
\<close>

theorem tokenizer_season_episode:
  assumes base: "getBaseName fname = pre @ c1 # ds1 @ c2 # ds2 @ post"
    and c1: "upper_char c1 = CHR ''S''" and c2: "upper_char c2 = CHR ''E''"
    and d1: "ds1 \<noteq> []" "list_all is_digit ds1"
    and d2: "ds2 \<noteq> []" "list_all is_digit ds2"
    and before: "pre = [] \<or> \<not> is_word (last pre)"
    and after: "post = [] \<or> \<not> is_word (hd post)"
    and leftmost: "no_match_before seasonEpisodeRx None (getBaseName fname) (length pre)"
  shows "extractSeasonAndEpisode fname = (Some (parseInt ds1), of_nat (parseInt ds2))"
proof -
  have wb: "\<not> word_before (last_or None pre)"
    using before by (auto simp: word_before_def last_or_def)
  have wa: "\<not> word_after post"
    using after by (cases post) (auto simp: word_after_def)
  have "ms seasonEpisodeRx (last_or None pre, c1 # ds1 @ c2 # ds2 @ post, [])
        = [(Some (last ds2), post, (2, ds2) # (1, ds1) # [])]"
    using c1 c2 d1 d2 wb wa by (rule ms_seasonEpisodeRx)
  then have "\<exists>more. ms seasonEpisodeRx (last_or None pre, c1 # ds1 @ c2 # ds2 @ post, [])
        = (Some (last ds2), post, (2, ds2) # (1, ds1) # []) # more"
    by simp
  with leftmost [unfolded base]
  have "rx_match seasonEpisodeRx (pre @ c1 # ds1 @ c2 # ds2 @ post)
        = Some (map_of (snd (snd (Some (last ds2), post, (2, ds2) # (1, ds1) # []))))"
    by (rule rx_match_found)
  then have "rx_match seasonEpisodeRx (getBaseName fname)
        = Some (map_of ((2, ds2) # (1, ds1) # []))"
    using base by simp
  then show ?thesis
    by (simp add: extractSeasonAndEpisode_def Let_def group_def)
qed

text \<open>
  C7. When the base name of a file has no \<open>S..E..\<close> marker and its leftmost
  \<open>Episode N.D\<close> marker is the word \<open>Episode\<close> (in any case), white space, the digits
  \<open>N\<close>, a dot and the digits \<open>D\<close>, the tokenizer returns the episode \<open>N + D / 10\<close> and
  no season.
\<close>

theorem tokenizer_decimal_episode:
  assumes base: "getBaseName fname = pre @ ep @ ws @ ds1 @ CHR ''.'' # ds2 @ post"
    and ep: "toUpperCase ep = ''EPISODE''"
    and ws: "list_all is_space ws"
    and d1: "ds1 \<noteq> []" "list_all is_digit ds1"
    and d2: "ds2 \<noteq> []" "list_all is_digit ds2"
    and after: "post = [] \<or> \<not> is_digit (hd post)"
    and leftmost: "no_match_before decimalEpisodeRx None (getBaseName fname) (length pre)"
    and no_marker: "rx_match seasonEpisodeRx (getBaseName fname) = None"
  shows "extractSeasonAndEpisode fname
         = (None, of_nat (parseInt ds1) + of_nat (parseInt ds2) / 10)"
proof -
  have "\<exists>more. ms decimalEpisodeRx (last_or None pre, ep @ ws @ ds1 @ CHR ''.'' # ds2 @ post, [])
        = (Some (last ds2), post, (2, ds2) # (1, ds1) # []) # more"
    using ep ws d1 d2 after by (rule ms_decimalEpisodeRx)
  with leftmost [unfolded base]
  have "rx_match decimalEpisodeRx (pre @ ep @ ws @ ds1 @ CHR ''.'' # ds2 @ post)
        = Some (map_of (snd (snd (Some (last ds2), post, (2, ds2) # (1, ds1) # []))))"
    by (rule rx_match_found)
  then have "rx_match decimalEpisodeRx (getBaseName fname)
        = Some (map_of ((2, ds2) # (1, ds1) # []))"
    using base by simp
  then show ?thesis
    using no_marker
    by (simp add: extractSeasonAndEpisode_def Let_def group_def)
qed

lemma last_filter_in:
  "filter P xs \<noteq> [] \<Longrightarrow> P (last (filter P xs))"
  using last_in_set [of "filter P xs"] by auto

text \<open>
  C6. When none of the earlier patterns matches the base name of a file, the episode
  is the last of the maximal digit runs of the base name whose value is not between
  1900 and 2099, and 1 when there is none, with no season; so a value between 1900 and
  2099 is never returned when some run has a value outside that range. The runs are
  those of the base name: the extension does not count.
\<close>

theorem tokenizer_digit_fallback:
  assumes "rx_match seasonEpisodeRx (getBaseName fname) = None"
    and "rx_match decimalEpisodeRx (getBaseName fname) = None"
    and "first_match episodePatterns (getBaseName fname) = None"
  shows "extractSeasonAndEpisode fname
         = (None, case filter (\<lambda>r. \<not> year_like r) (digit_runs (getBaseName fname)) of
                    [] \<Rightarrow> 1
                  | r # rs \<Rightarrow> of_nat (parseInt (last (r # rs))))
         \<and> ((\<exists>r \<in> set (digit_runs (getBaseName fname)). \<not> year_like r)
              \<longrightarrow> \<not> (1900 \<le> snd (extractSeasonAndEpisode fname)
                      \<and> snd (extractSeasonAndEpisode fname) \<le> 2099))"
proof -
  let ?runs = "filter (\<lambda>r. \<not> year_like r) (digit_runs (getBaseName fname))"
  have res: "extractSeasonAndEpisode fname
         = (None, case ?runs of [] \<Rightarrow> 1 | r # rs \<Rightarrow> of_nat (parseInt (last (r # rs))))"
    using assms
    by (simp add: extractSeasonAndEpisode_def Let_def rx_match_all_digits split: list.splits)
  have "\<not> (1900 \<le> snd (extractSeasonAndEpisode fname)
             \<and> snd (extractSeasonAndEpisode fname) \<le> 2099)"
    if "\<exists>r \<in> set (digit_runs (getBaseName fname)). \<not> year_like r"
  proof -
    from that have ne: "?runs \<noteq> []"
      by (auto simp: filter_empty_conv)
    then have "\<not> year_like (last ?runs)"
      by (rule last_filter_in)
    then have out: "parseInt (last ?runs) < 1900 \<or> parseInt (last ?runs) > 2099"
      by (simp add: year_like_def)
    have "snd (extractSeasonAndEpisode fname) = of_nat (parseInt (last ?runs))"
      using ne res by (cases ?runs) simp_all
    moreover have "\<not> (1900 \<le> (of_nat (parseInt (last ?runs)) :: rat)
                      \<and> (of_nat (parseInt (last ?runs)) :: rat) \<le> 2099)"
    proof -
      have "(1900 \<le> (of_nat (parseInt (last ?runs)) :: rat)) = (1900 \<le> parseInt (last ?runs))"
        by (metis of_nat_le_iff of_nat_numeral)
      moreover have "((of_nat (parseInt (last ?runs)) :: rat) \<le> 2099) = (parseInt (last ?runs) \<le> 2099)"
        by (metis of_nat_le_iff of_nat_numeral)
      ultimately show ?thesis using out by auto
    qed
    ultimately show ?thesis by simp
  qed
  with res show ?thesis by blast
qed


theorem tokenizer_season_episode_witness:
  "getBaseName ''Show 2 s01e02 [1080p].mkv''
     = ''Show 2 '' @ CHR ''s'' # ''01'' @ CHR ''e'' # ''02'' @ '' [1080p]''
   \<and> upper_char CHR ''s'' = CHR ''S'' \<and> upper_char CHR ''e'' = CHR ''E''
   \<and> list_all is_digit ''01'' \<and> list_all is_digit ''02''
   \<and> \<not> is_word (last ''Show 2 '') \<and> \<not> is_word (hd '' [1080p]'')
   \<and> no_match_before seasonEpisodeRx None (getBaseName ''Show 2 s01e02 [1080p].mkv'')
        (length ''Show 2 '')
   \<and> extractSeasonAndEpisode ''Show 2 s01e02 [1080p].mkv'' = (Some 1, 2)"
proof -
  have base: "getBaseName ''Show 2 s01e02 [1080p].mkv''
     = ''Show 2 '' @ CHR ''s'' # ''01'' @ CHR ''e'' # ''02'' @ '' [1080p]''"
    by code_simp
  have c1: "upper_char CHR ''s'' = CHR ''S''" and c2: "upper_char CHR ''e'' = CHR ''E''"
    by code_simp+
  have d1: "''01'' \<noteq> []" "list_all is_digit ''01''"
    and d2: "''02'' \<noteq> []" "list_all is_digit ''02''"
    by code_simp+
  have before: "\<not> is_word (last ''Show 2 '')" and after: "\<not> is_word (hd '' [1080p]'')"
    by code_simp+
  have leftmost: "no_match_before seasonEpisodeRx None
        (getBaseName ''Show 2 s01e02 [1080p].mkv'') (length ''Show 2 '')"
    by code_simp
  have n: "parseInt ''01'' = 1" "parseInt ''02'' = 2"
    by code_simp+
  have "extractSeasonAndEpisode ''Show 2 s01e02 [1080p].mkv''
        = (Some (parseInt ''01''), of_nat (parseInt ''02''))"
    using base c1 c2 d1 d2 _ _ leftmost
  proof (rule tokenizer_season_episode)
    show "''Show 2 '' = [] \<or> \<not> is_word (last ''Show 2 '')" using before by blast
    show "'' [1080p]'' = [] \<or> \<not> is_word (hd '' [1080p]'')" using after by blast
  qed
  then have "extractSeasonAndEpisode ''Show 2 s01e02 [1080p].mkv'' = (Some 1, 2)"
    using n by simp
  with base c1 c2 d1 d2 before after leftmost show ?thesis by blast
qed

text \<open>
  C5 as stated fails: \<open>XS01E02.mkv\<close> matches \<open>S(\d+)E(\d+)\<close> with the groups \<open>01\<close> and
  \<open>02\<close>, but the marker does not start at a word boundary; the tokenizer returns no
  season, and episode 2 from a later pattern.
\<close>

theorem spec_pattern_without_boundary:
  "rx_match spec_seasonEpisodeRx ''XS01E02.mkv'' = Some [2 \<mapsto> ''02'', 1 \<mapsto> ''01'']
   \<and> extractSeasonAndEpisode ''XS01E02.mkv'' = (None, 2)"
proof -
  have "rx_find spec_seasonEpisodeRx None ''XS01E02.mkv''
        = Some (''X'', Some CHR ''2'', ''.mkv'', [(2, ''02''), (1, ''01'')])"
    by code_simp
  then have "rx_match spec_seasonEpisodeRx ''XS01E02.mkv'' = Some [2 \<mapsto> ''02'', 1 \<mapsto> ''01'']"
    by (auto simp: rx_match_def)
  moreover have "extractSeasonAndEpisode ''XS01E02.mkv'' = (None, 2)"
    by code_simp
  ultimately show ?thesis by blast
qed

theorem tokenizer_decimal_episode_witness:
  "getBaseName ''Episode 6.5.mkv'' = [] @ ''Episode'' @ '' '' @ ''6'' @ CHR ''.'' # ''5'' @ []
   \<and> toUpperCase ''Episode'' = ''EPISODE''
   \<and> list_all is_space '' '' \<and> list_all is_digit ''6'' \<and> list_all is_digit ''5''
   \<and> no_match_before decimalEpisodeRx None (getBaseName ''Episode 6.5.mkv'') (length ([] :: string))
   \<and> rx_match seasonEpisodeRx (getBaseName ''Episode 6.5.mkv'') = None
   \<and> extractSeasonAndEpisode ''Episode 6.5.mkv'' = (None, 13 / 2)"
proof -
  have base: "getBaseName ''Episode 6.5.mkv''
     = [] @ ''Episode'' @ '' '' @ ''6'' @ CHR ''.'' # ''5'' @ []"
    by code_simp
  have ep: "toUpperCase ''Episode'' = ''EPISODE''" by code_simp
  have ws: "list_all is_space '' ''" by code_simp
  have d1: "''6'' \<noteq> []" "list_all is_digit ''6''"
    and d2: "''5'' \<noteq> []" "list_all is_digit ''5''"
    by code_simp+
  have after: "([]::string) = [] \<or> \<not> is_digit (hd [])" by simp
  have leftmost: "no_match_before decimalEpisodeRx None (getBaseName ''Episode 6.5.mkv'')
        (length ([] :: string))"
    by simp
  have none: "rx_find seasonEpisodeRx None (getBaseName ''Episode 6.5.mkv'') = None"
    by code_simp
  then have no_marker: "rx_match seasonEpisodeRx (getBaseName ''Episode 6.5.mkv'') = None"
    by (simp add: rx_match_def)
  have n: "parseInt ''6'' = 6" "parseInt ''5'' = 5"
    by code_simp+
  have "extractSeasonAndEpisode ''Episode 6.5.mkv''
        = (None, of_nat (parseInt ''6'') + of_nat (parseInt ''5'') / 10)"
    using base ep ws d1 d2 after leftmost no_marker by (rule tokenizer_decimal_episode)
  then have "extractSeasonAndEpisode ''Episode 6.5.mkv'' = (None, 13 / 2)"
    using n by simp
  with base ep ws d1 d2 leftmost no_marker show ?thesis by blast
qed

lemma first_match_none:
  "list_all (\<lambda>p. rx_find p None s = None) ps \<Longrightarrow> first_match ps s = None"
  by (induction ps) (simp_all add: rx_match_def)

theorem tokenizer_digit_fallback_witness:
  "rx_match seasonEpisodeRx (getBaseName ''Show.07.2020.mkv'') = None
   \<and> rx_match decimalEpisodeRx (getBaseName ''Show.07.2020.mkv'') = None
   \<and> first_match episodePatterns (getBaseName ''Show.07.2020.mkv'') = None
   \<and> digit_runs (getBaseName ''Show.07.2020.mkv'') = [''07'', ''2020'']
   \<and> extractSeasonAndEpisode ''Show.07.2020.mkv'' = (None, 7)
   \<and> rx_match seasonEpisodeRx (getBaseName ''Show.Name.mp4'') = None
   \<and> rx_match decimalEpisodeRx (getBaseName ''Show.Name.mp4'') = None
   \<and> first_match episodePatterns (getBaseName ''Show.Name.mp4'') = None
   \<and> digit_runs (getBaseName ''Show.Name.mp4'') = []
   \<and> extractSeasonAndEpisode ''Show.Name.mp4'' = (None, 1)"
proof -
  have a1: "rx_find seasonEpisodeRx None (getBaseName ''Show.07.2020.mkv'') = None"
    and a2: "rx_find decimalEpisodeRx None (getBaseName ''Show.07.2020.mkv'') = None"
    by code_simp+
  have a3: "list_all (\<lambda>p. rx_find p None (getBaseName ''Show.07.2020.mkv'') = None) episodePatterns"
    by code_simp
  have b1: "rx_find seasonEpisodeRx None (getBaseName ''Show.Name.mp4'') = None"
    and b2: "rx_find decimalEpisodeRx None (getBaseName ''Show.Name.mp4'') = None"
    by code_simp+
  have b3: "list_all (\<lambda>p. rx_find p None (getBaseName ''Show.Name.mp4'') = None) episodePatterns"
    by code_simp
  have A: "rx_match seasonEpisodeRx (getBaseName ''Show.07.2020.mkv'') = None"
          "rx_match decimalEpisodeRx (getBaseName ''Show.07.2020.mkv'') = None"
          "first_match episodePatterns (getBaseName ''Show.07.2020.mkv'') = None"
    using a1 a2 first_match_none [OF a3] by (simp_all add: rx_match_def)
  have B: "rx_match seasonEpisodeRx (getBaseName ''Show.Name.mp4'') = None"
          "rx_match decimalEpisodeRx (getBaseName ''Show.Name.mp4'') = None"
          "first_match episodePatterns (getBaseName ''Show.Name.mp4'') = None"
    using b1 b2 first_match_none [OF b3] by (simp_all add: rx_match_def)
  have ra: "digit_runs (getBaseName ''Show.07.2020.mkv'') = [''07'', ''2020'']"
    and rb: "digit_runs (getBaseName ''Show.Name.mp4'') = []"
    by code_simp+
  have y: "\<not> year_like ''07''" "year_like ''2020''" "parseInt ''07'' = 7"
    by code_simp+
  have "extractSeasonAndEpisode ''Show.07.2020.mkv'' = (None, 7)"
    using tokenizer_digit_fallback [OF A] ra y by simp
  moreover have "extractSeasonAndEpisode ''Show.Name.mp4'' = (None, 1)"
    using tokenizer_digit_fallback [OF B] rb by simp
  ultimately show ?thesis using A B ra rb by blast
qed


end
